theory Spec2Isabelle
  imports Main
begin

section \<open>Errors and string formatting\<close>

text \<open>
  \<^verbatim>\<open>Fatal(msg)\<close> writes the message and calls \<^verbatim>\<open>sys.exit(1)\<close>; every call site
  passes one formatted string. An uncaught Python exception ends the run as well;
  the only one the validators can raise on strings is \<^verbatim>\<open>IndexError\<close>.
\<close>

datatype error = Fatal string | IndexError

text \<open>Decimal rendering of integers, as \<^verbatim>\<open>'%d' % n\<close> and \<^verbatim>\<open>'%s' % n\<close> do.\<close>

definition digit_char :: "nat \<Rightarrow> char" where
  "digit_char d = ''0123456789'' ! d"

fun str_nat :: "nat \<Rightarrow> string" where
  "str_nat n = (if n < 10 then [digit_char n]
                else str_nat (n div 10) @ [digit_char (n mod 10)])"

declare str_nat.simps [simp del]

definition str_int :: "int \<Rightarrow> string" where
  "str_int i = (if i < 0 then CHR ''-'' # str_nat (nat (- i)) else str_nat (nat i))"

section \<open>Regular expressions of the validators\<close>

text \<open>
  The two patterns of the source use character classes, concatenation and
  repetition only. A class is a list of inclusive character ranges.
\<close>

datatype rexp =
    Null
  | Eps
  | Cls "(char \<times> char) list"
  | Alt rexp rexp
  | Seq rexp rexp
  | Rep rexp

definition in_range :: "char \<Rightarrow> char \<times> char \<Rightarrow> bool" where
  "in_range c r = ((of_char (fst r) :: nat) \<le> of_char c \<and> (of_char c :: nat) \<le> of_char (snd r))"

definition in_cls :: "(char \<times> char) list \<Rightarrow> char \<Rightarrow> bool" where
  "in_cls rs c = list_ex (in_range c) rs"

fun nullable :: "rexp \<Rightarrow> bool" where
  "nullable Null = False"
| "nullable Eps = True"
| "nullable (Cls rs) = False"
| "nullable (Alt r s) = (nullable r \<or> nullable s)"
| "nullable (Seq r s) = (nullable r \<and> nullable s)"
| "nullable (Rep r) = True"

fun deriv :: "char \<Rightarrow> rexp \<Rightarrow> rexp" where
  "deriv c Null = Null"
| "deriv c Eps = Null"
| "deriv c (Cls rs) = (if in_cls rs c then Eps else Null)"
| "deriv c (Alt r s) = Alt (deriv c r) (deriv c s)"
| "deriv c (Seq r s) =
     (if nullable r then Alt (Seq (deriv c r) s) (deriv c s) else Seq (deriv c r) s)"
| "deriv c (Rep r) = Seq (deriv c r) (Rep r)"

fun accepts :: "rexp \<Rightarrow> string \<Rightarrow> bool" where
  "accepts r [] = nullable r"
| "accepts r (c # cs) = accepts (deriv c r) cs"

text \<open>
  \<^verbatim>\<open>pattern.match(s)\<close> anchors at the start of \<^verbatim>\<open>s\<close>. Both patterns end in
  \<^verbatim>\<open>$\<close>, which in Python (without MULTILINE) holds at the end of the string and
  also just before a newline that is the last character. So \<^verbatim>\<open>body$\<close> matches
  \<^verbatim>\<open>s\<close> when the body matches all of \<^verbatim>\<open>s\<close>, or all of \<^verbatim>\<open>s\<close> but one final newline.
\<close>

definition newline :: char where
  "newline = CHR 0x0A"

definition match_dollar :: "rexp \<Rightarrow> string \<Rightarrow> bool" where
  "match_dollar body s =
     (accepts body s \<or> (s \<noteq> [] \<and> last s = newline \<and> accepts body (butlast s)))"

definition lower :: "(char \<times> char) list" where
  "lower = [(CHR ''a'', CHR ''z'')]"

definition upper :: "(char \<times> char) list" where
  "upper = [(CHR ''A'', CHR ''Z'')]"

definition digit :: "(char \<times> char) list" where
  "digit = [(CHR ''0'', CHR ''9'')]"

definition only :: "char \<Rightarrow> (char \<times> char) list" where
  "only c = [(c, c)]"

text \<open>\<^verbatim>\<open>RE_RFC1035_NAME = re.compile(r"^[a-z]([-a-z0-9]*[a-z0-9])*$")\<close>\<close>

definition RE_RFC1035_NAME :: rexp where
  "RE_RFC1035_NAME =
     Seq (Cls lower)
         (Rep (Seq (Rep (Cls (only CHR ''-'' @ lower @ digit))) (Cls (lower @ digit))))"

text \<open>
  \<^verbatim>\<open>RE_C_TOKEN = re.compile(r"[A-Za-z_]\w*$")\<close>; on byte strings \<^verbatim>\<open>\w\<close> is
  \<^verbatim>\<open>[a-zA-Z0-9_]\<close>.
\<close>

definition RE_C_TOKEN :: rexp where
  "RE_C_TOKEN =
     Seq (Cls (upper @ lower @ only CHR ''_''))
         (Rep (Cls (lower @ upper @ digit @ only CHR ''_'')))"

section \<open>Validators\<close>

definition PROTOCOL_TCP :: string where "PROTOCOL_TCP = ''TCP''"
definition PROTOCOL_UDP :: string where "PROTOCOL_UDP = ''UDP''"

definition VALID_PROTOCOLS :: "string list" where
  "VALID_PROTOCOLS = [PROTOCOL_TCP, PROTOCOL_UDP]"

definition MAX_PATH_LEN :: nat where "MAX_PATH_LEN = 512"

definition VOLUMES_ROOT_DIR :: string where "VOLUMES_ROOT_DIR = ''/export''"

definition IsValidProtocol :: "string \<Rightarrow> bool" where
  "IsValidProtocol proto = (proto \<in> set VALID_PROTOCOLS)"

definition ProtocolString :: "string \<Rightarrow> string" where
  "ProtocolString proto = (if proto = PROTOCOL_UDP then ''/udp'' else '''')"

definition IsValidPort :: "int \<Rightarrow> bool" where
  "IsValidPort port = (0 < port \<and> port \<le> 65535)"

text \<open>
  The two regular-expression validators return the match object or \<^verbatim>\<open>None\<close>;
  every caller uses the result as a truth value, which is what is modelled.
\<close>

definition IsRfc1035Name :: "string \<Rightarrow> bool" where
  "IsRfc1035Name name = match_dollar RE_RFC1035_NAME name"

definition IsCToken :: "string \<Rightarrow> bool" where
  "IsCToken name = match_dollar RE_C_TOKEN name"

text \<open>
  \<^verbatim>\<open>return path[0] == '/' and len(path) <= MAX_PATH_LEN\<close>: indexing the empty
  string raises \<^verbatim>\<open>IndexError\<close>.
\<close>

definition IsValidPath :: "string \<Rightarrow> error + bool" where
  "IsValidPath path =
     (case path of
        [] \<Rightarrow> Inl IndexError
      | c # _ \<Rightarrow> Inr (c = CHR ''/'' \<and> length path \<le> MAX_PATH_LEN))"

section \<open>The manifest and the container record\<close>

text \<open>
  The parsed manifest is a tree of dictionaries. Each dictionary the loader reads
  is a record whose fields are optional: \<open>None\<close> is "key not in the dictionary".
\<close>

record volume_spec =
  v_name :: "string option"

record port_spec =
  p_name :: "string option"
  p_containerPort :: "int option"
  p_hostPort :: "int option"
  p_protocol :: "string option"

record mount_spec =
  m_name :: "string option"
  m_path :: "string option"
  m_readOnly :: "bool option"

record env_spec =
  e_key :: "string option"
  e_value :: "string option"

record ctr_spec =
  s_name :: "string option"
  s_image :: "string option"
  s_command :: "string list option"
  s_workingDir :: "string option"
  s_ports :: "port_spec list option"
  s_volumeMounts :: "mount_spec list option"
  s_env :: "env_spec list option"

record config =
  cfg_version :: "string option"
  cfg_volumes :: "volume_spec list option"
  cfg_containers :: "ctr_spec list option"

text \<open>\<^verbatim>\<open>d.get(key, default)\<close>\<close>

definition get_default :: "'a option \<Rightarrow> 'a \<Rightarrow> 'a" where
  "get_default v d = (case v of None \<Rightarrow> d | Some x \<Rightarrow> x)"

type_synonym port_binding = "int \<times> int \<times> string"

text \<open>\<^verbatim>\<open>class Container\<close>; the field \<^verbatim>\<open>image\<close> is \<open>image_c\<close> here.\<close>

record Container =
  name :: string
  image_c :: string
  command :: "string list"
  hostname :: "string option"
  working_dir :: "string option"
  ports :: "port_binding list"
  mounts :: "string list"
  env_vars :: "string list"
  network_from :: "string option"

definition Container_init :: "string \<Rightarrow> string \<Rightarrow> Container" where
  "Container_init n i =
     \<lparr> name = n, image_c = i, command = [], hostname = None, working_dir = None,
       ports = [], mounts = [], env_vars = [], network_from = None \<rparr>"

section \<open>Manifest loader\<close>

subsection \<open>LoadVolumes\<close>

fun LoadVolumes_loop :: "nat \<Rightarrow> volume_spec list \<Rightarrow> string list \<Rightarrow> error + string list" where
  "LoadVolumes_loop vol_index [] all_vol_names = Inr all_vol_names"
| "LoadVolumes_loop vol_index (vol # rest) all_vol_names =
     (case v_name vol of
        None \<Rightarrow> Inl (Fatal (''volumes['' @ str_nat vol_index @ ''] has no name''))
      | Some vol_name \<Rightarrow>
          if \<not> IsRfc1035Name vol_name then
            Inl (Fatal (''volumes['' @ str_nat vol_index @ ''].name is invalid: '' @ vol_name))
          else if vol_name \<in> set all_vol_names then
            Inl (Fatal (''volumes['' @ str_nat vol_index @ ''].name is not unique: '' @ vol_name))
          else LoadVolumes_loop (Suc vol_index) rest (all_vol_names @ [vol_name]))"

definition LoadVolumes :: "volume_spec list \<Rightarrow> error + string list" where
  "LoadVolumes volumes = LoadVolumes_loop 0 volumes []"

subsection \<open>LoadPorts\<close>

text \<open>The first block of the loop body: the port's name, and the updated name list.\<close>

definition LoadPorts_name ::
  "string \<Rightarrow> nat \<Rightarrow> port_spec \<Rightarrow> string list \<Rightarrow> error + (string \<times> string list)" where
  "LoadPorts_name ctr_name port_index port_spec all_port_names =
     (case p_name port_spec of
        Some port_name \<Rightarrow>
          if \<not> IsRfc1035Name port_name then
            Inl (Fatal (''containers['' @ ctr_name @ ''].ports['' @ str_nat port_index
                        @ ''].name is invalid: '' @ port_name))
          else if port_name \<in> set all_port_names then
            Inl (Fatal (''containers['' @ ctr_name @ ''].ports['' @ str_nat port_index
                        @ ''].name is not unique: '' @ port_name))
          else Inr (port_name, all_port_names @ [port_name])
      | None \<Rightarrow> Inr (str_nat port_index, all_port_names))"

text \<open>The rest of the loop body: the binding of one entry, or the fatal error.\<close>

definition LoadPorts_binding ::
  "string \<Rightarrow> string \<Rightarrow> port_spec \<Rightarrow> int list \<Rightarrow> error + port_binding" where
  "LoadPorts_binding ctr_name port_name port_spec all_host_port_nums =
     (case p_containerPort port_spec of
        None \<Rightarrow>
          Inl (Fatal (''containers['' @ ctr_name @ ''].ports['' @ port_name
                      @ ''] has no containerPort''))
      | Some ctr_port \<Rightarrow>
          if \<not> IsValidPort ctr_port then
            Inl (Fatal (''containers['' @ ctr_name @ ''].ports['' @ port_name
                        @ ''].containerPort is invalid: '' @ str_int ctr_port))
          else
            let host_port = get_default (p_hostPort port_spec) ctr_port in
            if \<not> IsValidPort host_port then
              Inl (Fatal (''containers['' @ ctr_name @ ''].ports['' @ port_name
                          @ ''].hostPort is invalid: '' @ str_int host_port))
            else if host_port \<in> set all_host_port_nums then
              Inl (Fatal (''containers['' @ ctr_name @ ''].ports['' @ port_name
                          @ ''].hostPort is not unique: '' @ str_int host_port))
            else
              let proto = get_default (p_protocol port_spec) ''TCP'' in
              if \<not> IsValidProtocol proto then
                Inl (Fatal (''containers['' @ ctr_name @ ''].ports['' @ port_name
                            @ ''].protocol is invalid: '' @ proto))
              else Inr (host_port, ctr_port, ProtocolString proto))"

fun LoadPorts_loop ::
  "string \<Rightarrow> nat \<Rightarrow> port_spec list \<Rightarrow> port_binding list \<Rightarrow> string list \<Rightarrow> int list
     \<Rightarrow> error + port_binding list" where
  "LoadPorts_loop ctr_name port_index [] all_ports all_port_names all_host_port_nums =
     Inr all_ports"
| "LoadPorts_loop ctr_name port_index (port_spec # rest) all_ports all_port_names
       all_host_port_nums =
     (case LoadPorts_name ctr_name port_index port_spec all_port_names of
        Inl e \<Rightarrow> Inl e
      | Inr (port_name, all_port_names') \<Rightarrow>
          (case LoadPorts_binding ctr_name port_name port_spec all_host_port_nums of
             Inl e \<Rightarrow> Inl e
           | Inr b \<Rightarrow>
               LoadPorts_loop ctr_name (Suc port_index) rest (all_ports @ [b])
                 all_port_names' (all_host_port_nums @ [fst b])))"

definition LoadPorts :: "port_spec list \<Rightarrow> string \<Rightarrow> error + port_binding list" where
  "LoadPorts ports_spec ctr_name = LoadPorts_loop ctr_name 0 ports_spec [] [] []"

subsection \<open>LoadVolumeMounts\<close>

definition LoadVolumeMounts_entry ::
  "string \<Rightarrow> nat \<Rightarrow> mount_spec \<Rightarrow> string list \<Rightarrow> error + string" where
  "LoadVolumeMounts_entry ctr_name vol_index vol_spec all_volumes =
     (case m_name vol_spec of
        None \<Rightarrow>
          Inl (Fatal (''containers['' @ ctr_name @ ''].volumeMounts['' @ str_nat vol_index
                      @ ''] has no name''))
      | Some vol_name \<Rightarrow>
          if \<not> IsRfc1035Name vol_name then
            Inl (Fatal (''containers['' @ ctr_name @ ''].volumeMounts['' @ str_nat vol_index
                        @ ''].nameis invalid: '' @ vol_name))
          else if vol_name \<notin> set all_volumes then
            Inl (Fatal (''containers['' @ ctr_name @ ''].volumeMounts['' @ str_nat vol_index
                        @ ''].nameis not a known volume: '' @ vol_name))
          else
            (case m_path vol_spec of
               None \<Rightarrow>
                 Inl (Fatal (''containers['' @ ctr_name @ ''].volumeMounts['' @ vol_name
                             @ ''] has no path''))
             | Some vol_path \<Rightarrow>
                 (case IsValidPath vol_path of
                    Inl e \<Rightarrow> Inl e
                  | Inr ok \<Rightarrow>
                      if \<not> ok then
                        Inl (Fatal (''containers['' @ ctr_name @ ''].volumeMounts['' @ vol_name
                                    @ ''].path is invalid: '' @ vol_path))
                      else
                        let read_mode =
                              (if get_default (m_readOnly vol_spec) False then ''ro'' else ''rw'')
                        in Inr (VOLUMES_ROOT_DIR @ ''/'' @ vol_name @ '':'' @ vol_path
                                @ '':'' @ read_mode))))"

fun LoadVolumeMounts_loop ::
  "string \<Rightarrow> nat \<Rightarrow> mount_spec list \<Rightarrow> string list \<Rightarrow> string list \<Rightarrow> error + string list" where
  "LoadVolumeMounts_loop ctr_name vol_index [] all_volumes all_mounts = Inr all_mounts"
| "LoadVolumeMounts_loop ctr_name vol_index (vol_spec # rest) all_volumes all_mounts =
     (case LoadVolumeMounts_entry ctr_name vol_index vol_spec all_volumes of
        Inl e \<Rightarrow> Inl e
      | Inr m \<Rightarrow>
          LoadVolumeMounts_loop ctr_name (Suc vol_index) rest all_volumes (all_mounts @ [m]))"

definition LoadVolumeMounts ::
  "mount_spec list \<Rightarrow> string list \<Rightarrow> string \<Rightarrow> error + string list" where
  "LoadVolumeMounts mounts_spec all_volumes ctr_name =
     LoadVolumeMounts_loop ctr_name 0 mounts_spec all_volumes []"

subsection \<open>LoadEnvVars\<close>

definition LoadEnvVars_entry :: "string \<Rightarrow> nat \<Rightarrow> env_spec \<Rightarrow> error + string" where
  "LoadEnvVars_entry ctr_name env_index env_spec =
     (case e_key env_spec of
        None \<Rightarrow>
          Inl (Fatal (''containers['' @ ctr_name @ ''].env['' @ str_nat env_index
                      @ ''] has no key''))
      | Some env_key \<Rightarrow>
          if \<not> IsCToken env_key then
            Inl (Fatal (''containers['' @ ctr_name @ ''].env['' @ str_nat env_index
                        @ ''].key is invalid: '' @ env_key))
          else
            (case e_value env_spec of
               None \<Rightarrow>
                 Inl (Fatal (''containers['' @ ctr_name @ ''].env['' @ env_key
                             @ ''] has no value''))
             | Some env_val \<Rightarrow> Inr (env_key @ ''='' @ env_val)))"

fun LoadEnvVars_loop ::
  "string \<Rightarrow> nat \<Rightarrow> env_spec list \<Rightarrow> string list \<Rightarrow> error + string list" where
  "LoadEnvVars_loop ctr_name env_index [] all_env_vars = Inr all_env_vars"
| "LoadEnvVars_loop ctr_name env_index (env_spec # rest) all_env_vars =
     (case LoadEnvVars_entry ctr_name env_index env_spec of
        Inl e \<Rightarrow> Inl e
      | Inr v \<Rightarrow> LoadEnvVars_loop ctr_name (Suc env_index) rest (all_env_vars @ [v]))"

definition LoadEnvVars :: "env_spec list \<Rightarrow> string \<Rightarrow> error + string list" where
  "LoadEnvVars env_spec ctr_name = LoadEnvVars_loop ctr_name 0 env_spec []"

subsection \<open>LoadUserContainers\<close>

text \<open>
  The name block of the loop body: the checked name, or the fatal error.
\<close>

definition LoadUserContainers_name ::
  "nat \<Rightarrow> ctr_spec \<Rightarrow> string list \<Rightarrow> error + string" where
  "LoadUserContainers_name ctr_index ctr_spec all_ctr_names =
     (case s_name ctr_spec of
        None \<Rightarrow> Inl (Fatal (''containers['' @ str_nat ctr_index @ ''] has no name''))
      | Some n \<Rightarrow>
          if \<not> IsRfc1035Name n then
            Inl (Fatal (''containers['' @ str_nat ctr_index @ ''].name is invalid: '' @ n))
          else if n \<in> set all_ctr_names then
            Inl (Fatal (''containers['' @ str_nat ctr_index @ ''].name is not unique: '' @ n))
          else Inr n)"

text \<open>
  The check of \<^verbatim>\<open>workingDir\<close>: only made when the key is present; the path
  validator's exception goes through.
\<close>

definition check_working_dir :: "string \<Rightarrow> string option \<Rightarrow> error + unit" where
  "check_working_dir ctr_name wd =
     (case wd of
        None \<Rightarrow> Inr ()
      | Some d \<Rightarrow>
          (case IsValidPath d of
             Inl e \<Rightarrow> Inl e
           | Inr ok \<Rightarrow>
               if \<not> ok then
                 Inl (Fatal (''containers['' @ ctr_name @ ''].workingDir is invalid: '' @ d))
               else Inr ()))"

text \<open>The rest of the loop body, from the image check to the finished container.\<close>

definition LoadUserContainers_build ::
  "string \<Rightarrow> ctr_spec \<Rightarrow> string list \<Rightarrow> error + Container" where
  "LoadUserContainers_build ctr_name ctr_spec all_volumes =
     (case s_image ctr_spec of
        None \<Rightarrow> Inl (Fatal (''containers['' @ ctr_name @ ''] has no image''))
      | Some img \<Rightarrow>
          let current_ctr = Container_init ctr_name img;
              current_ctr = current_ctr\<lparr>hostname := Some (name current_ctr)\<rparr>;
              current_ctr = current_ctr\<lparr>command := get_default (s_command ctr_spec) []\<rparr>;
              current_ctr = current_ctr\<lparr>working_dir := s_workingDir ctr_spec\<rparr>
          in
          (case check_working_dir (name current_ctr) (working_dir current_ctr) of
             Inl e \<Rightarrow> Inl e
           | Inr _ \<Rightarrow>
          (case LoadPorts (get_default (s_ports ctr_spec) []) (name current_ctr) of
             Inl e \<Rightarrow> Inl e
           | Inr ps \<Rightarrow>
          (case LoadVolumeMounts (get_default (s_volumeMounts ctr_spec) []) all_volumes
                  (name current_ctr) of
             Inl e \<Rightarrow> Inl e
           | Inr ms \<Rightarrow>
          (case LoadEnvVars (get_default (s_env ctr_spec) []) (name current_ctr) of
             Inl e \<Rightarrow> Inl e
           | Inr es \<Rightarrow>
               Inr (current_ctr\<lparr>ports := ps, mounts := ms, env_vars := es,
                                 network_from := Some ''container:.net''\<rparr>))))))"

fun LoadUserContainers_loop ::
  "nat \<Rightarrow> ctr_spec list \<Rightarrow> string list \<Rightarrow> Container list \<Rightarrow> string list
     \<Rightarrow> error + Container list" where
  "LoadUserContainers_loop ctr_index [] all_volumes all_ctrs all_ctr_names = Inr all_ctrs"
| "LoadUserContainers_loop ctr_index (ctr_spec # rest) all_volumes all_ctrs all_ctr_names =
     (case LoadUserContainers_name ctr_index ctr_spec all_ctr_names of
        Inl e \<Rightarrow> Inl e
      | Inr n \<Rightarrow>
          (case LoadUserContainers_build n ctr_spec all_volumes of
             Inl e \<Rightarrow> Inl e
           | Inr current_ctr \<Rightarrow>
               LoadUserContainers_loop (Suc ctr_index) rest all_volumes
                 (all_ctrs @ [current_ctr]) (all_ctr_names @ [n])))"

definition LoadUserContainers :: "ctr_spec list \<Rightarrow> string list \<Rightarrow> error + Container list" where
  "LoadUserContainers containers all_volumes =
     LoadUserContainers_loop 0 containers all_volumes [] []"

section \<open>Group resolver\<close>

subsection \<open>LoadInfraContainers\<close>

text \<open>
  The loop extends the ports of the network container and assigns a fresh empty
  list to each user container. The user containers are objects shared with the
  caller's list, so the function returns them, updated, next to its own result.
\<close>

fun LoadInfraContainers_loop ::
  "Container \<Rightarrow> Container list \<Rightarrow> Container list \<Rightarrow> Container \<times> Container list" where
  "LoadInfraContainers_loop net_ctr seen [] = (net_ctr, seen)"
| "LoadInfraContainers_loop net_ctr seen (user_ctr # rest) =
     LoadInfraContainers_loop (net_ctr\<lparr>ports := ports net_ctr @ ports user_ctr\<rparr>)
       (seen @ [user_ctr\<lparr>ports := []\<rparr>]) rest"

definition LoadInfraContainers :: "Container list \<Rightarrow> Container list \<times> Container list" where
  "LoadInfraContainers user_containers =
     (let net_ctr = Container_init ''.net'' ''busybox'';
          net_ctr = net_ctr\<lparr>command := [''sh'', ''-c'', ''rm -f nap && mkfifo nap && exec cat nap'']\<rparr>;
          (net_ctr, user_containers') = LoadInfraContainers_loop net_ctr [] user_containers
      in ([net_ctr], user_containers'))"

subsection \<open>CheckGroupWideConflicts\<close>

text \<open>The keys \<^verbatim>\<open>'%s%s' % (port[0], port[2])\<close> and \<^verbatim>\<open>'%s%s' % (port[1], port[2])\<close>.\<close>

definition host_key :: "port_binding \<Rightarrow> string" where
  "host_key port = str_int (fst port) @ snd (snd port)"

definition ctr_key :: "port_binding \<Rightarrow> string" where
  "ctr_key port = str_int (fst (snd port)) @ snd (snd port)"

fun CheckPorts_loop ::
  "port_binding list \<Rightarrow> string set \<Rightarrow> string set \<Rightarrow> error + (string set \<times> string set)" where
  "CheckPorts_loop [] host_ports ctr_ports = Inr (host_ports, ctr_ports)"
| "CheckPorts_loop (port # rest) host_ports ctr_ports =
     (if host_key port \<in> host_ports then
        Inl (Fatal (''host port '' @ host_key port @ '' is not unique group-wide''))
      else if ctr_key port \<in> ctr_ports then
        Inl (Fatal (''container port '' @ ctr_key port @ '' is not unique group-wide''))
      else CheckPorts_loop rest (insert (host_key port) host_ports)
             (insert (ctr_key port) ctr_ports))"

fun CheckGroupWideConflicts_loop ::
  "Container list \<Rightarrow> string set \<Rightarrow> string set \<Rightarrow> error + unit" where
  "CheckGroupWideConflicts_loop [] host_ports ctr_ports = Inr ()"
| "CheckGroupWideConflicts_loop (ctr # rest) host_ports ctr_ports =
     (case CheckPorts_loop (ports ctr) host_ports ctr_ports of
        Inl e \<Rightarrow> Inl e
      | Inr (host_ports', ctr_ports') \<Rightarrow>
          CheckGroupWideConflicts_loop rest host_ports' ctr_ports')"

definition CheckGroupWideConflicts :: "Container list \<Rightarrow> error + unit" where
  "CheckGroupWideConflicts containers = CheckGroupWideConflicts_loop containers {} {}"

section \<open>The main flow up to the launch\<close>

definition SUPPORTED_CONFIG_VERSIONS :: "string list" where
  "SUPPORTED_CONFIG_VERSIONS = [''v1beta1'']"

definition CheckVersion :: "config \<Rightarrow> error + unit" where
  "CheckVersion cfg =
     (case cfg_version cfg of
        None \<Rightarrow> Inl (Fatal ''config has no version field'')
      | Some v \<Rightarrow>
          if v \<notin> set SUPPORTED_CONFIG_VERSIONS then
            Inl (Fatal (''config version '' @ [CHR 0x27] @ v @ [CHR 0x27] @ '' is not supported''))
          else Inr ())"

text \<open>
  \<^verbatim>\<open>main\<close> after the manifest is parsed, up to the argument of \<^verbatim>\<open>RunContainers\<close>:
  the resolved group, or \<open>None\<close> when there is no user container and nothing is run.
\<close>

definition main_group :: "config \<Rightarrow> error + Container list option" where
  "main_group cfg =
     (case CheckVersion cfg of
        Inl e \<Rightarrow> Inl e
      | Inr _ \<Rightarrow>
     (case LoadVolumes (get_default (cfg_volumes cfg) []) of
        Inl e \<Rightarrow> Inl e
      | Inr all_volumes \<Rightarrow>
     (case LoadUserContainers (get_default (cfg_containers cfg) []) all_volumes of
        Inl e \<Rightarrow> Inl e
      | Inr user_containers \<Rightarrow>
     (case CheckGroupWideConflicts user_containers of
        Inl e \<Rightarrow> Inl e
      | Inr _ \<Rightarrow>
          if user_containers \<noteq> [] then
            (let (infra_containers, user_containers') = LoadInfraContainers user_containers
             in Inr (Some (infra_containers @ user_containers')))
          else Inr None))))"

section \<open>Auxiliary definitions for the proofs\<close>

text \<open>Reading a decimal rendering back, to show that the rendering is injective.\<close>

definition digit_val :: "char \<Rightarrow> nat" where
  "digit_val c = of_char c - 48"

definition parse_nat :: "string \<Rightarrow> nat" where
  "parse_nat s = foldl (\<lambda>a c. 10 * a + digit_val c) 0 s"

text \<open>
  The ports sub-pass in the words of the specification: what one entry must
  satisfy on its own, and the binding it stands for (host port defaulting to the
  container port, protocol defaulting to \<^verbatim>\<open>TCP\<close>).
\<close>

definition spec_binding :: "port_spec \<Rightarrow> port_binding option" where
  "spec_binding p =
     (case p_containerPort p of
        None \<Rightarrow> None
      | Some c \<Rightarrow>
          Some (get_default (p_hostPort p) c, c, ProtocolString (get_default (p_protocol p) ''TCP'')))"

definition port_entry_ok :: "port_spec \<Rightarrow> bool" where
  "port_entry_ok p =
     ((\<forall>n. p_name p = Some n \<longrightarrow> IsRfc1035Name n)
      \<and> (\<exists>c. p_containerPort p = Some c \<and> IsValidPort c
               \<and> IsValidPort (get_default (p_hostPort p) c))
      \<and> IsValidProtocol (get_default (p_protocol p) ''TCP''))"

text \<open>
  The language of a regular expression, to state what the matcher accepts, and the
  RFC 1035 label in the words of the specification: a lowercase letter first,
  lowercase letters, digits and hyphens only, no hyphen last.
\<close>

inductive_set star :: "string set \<Rightarrow> string set" for A :: "string set" where
  star_nil: "[] \<in> star A"
| star_app: "u \<in> A \<Longrightarrow> v \<in> star A \<Longrightarrow> u @ v \<in> star A"

fun lang :: "rexp \<Rightarrow> string set" where
  "lang Null = {}"
| "lang Eps = {[]}"
| "lang (Cls rs) = {[c] | c. in_cls rs c}"
| "lang (Alt r s) = lang r \<union> lang s"
| "lang (Seq r s) = {u @ v | u v. u \<in> lang r \<and> v \<in> lang s}"
| "lang (Rep r) = star (lang r)"

definition is_lower :: "char \<Rightarrow> bool" where
  "is_lower c = ((97::nat) \<le> of_char c \<and> of_char c \<le> (122::nat))"

definition is_digit :: "char \<Rightarrow> bool" where
  "is_digit c = ((48::nat) \<le> of_char c \<and> of_char c \<le> (57::nat))"

definition rfc_label :: "string \<Rightarrow> bool" where
  "rfc_label s =
     (s \<noteq> [] \<and> is_lower (hd s)
      \<and> (\<forall>c \<in> set s. is_lower c \<or> is_digit c \<or> c = CHR ''-'')
      \<and> last s \<noteq> CHR ''-'')"

section \<open>Decimal rendering\<close>

lemma digit_cases: "d < 10 \<Longrightarrow> d \<in> {0, 1, 2, 3, 4, 5, 6, 7, 8, 9::nat}"
  by auto

lemma digit_val_digit_char: "d < 10 \<Longrightarrow> digit_val (digit_char d) = d"
  using digit_cases [of d] by (auto simp: digit_val_def digit_char_def)

lemma digit_char_in: "d < 10 \<Longrightarrow> digit_char d \<in> set ''0123456789''"
  unfolding digit_char_def by (rule nth_mem) simp

lemma parse_nat_str_nat: "parse_nat (str_nat n) = n"
proof (induction n rule: str_nat.induct)
  case (1 n)
  show ?case
  proof (cases "n < 10")
    case True
    then show ?thesis
      by (simp add: str_nat.simps [of n] parse_nat_def digit_val_digit_char)
  next
    case False
    with 1 have "parse_nat (str_nat (n div 10)) = n div 10" by simp
    with False show ?thesis
      by (simp add: str_nat.simps [of n] parse_nat_def digit_val_digit_char)
  qed
qed

lemma str_nat_inj: "str_nat n = str_nat m \<Longrightarrow> n = m"
  by (metis parse_nat_str_nat)

lemma str_nat_digits: "set (str_nat n) \<subseteq> set ''0123456789''"
proof (induction n rule: str_nat.induct)
  case (1 n)
  show ?case
  proof (cases "n < 10")
    case True
    then show ?thesis
      using digit_char_in [of n] by (simp add: str_nat.simps [of n])
  next
    case False
    with 1 have "set (str_nat (n div 10)) \<subseteq> set ''0123456789''" by simp
    moreover have "digit_char (n mod 10) \<in> set ''0123456789''"
      by (rule digit_char_in) simp
    ultimately show ?thesis using False
      by (simp add: str_nat.simps [of n])
  qed
qed

lemma str_nat_nonempty: "str_nat n \<noteq> []"
  by (simp add: str_nat.simps [of n])

lemma str_int_inj: "str_int i = str_int j \<Longrightarrow> i = j"
proof -
  assume eq: "str_int i = str_int j"
  have nd: "\<And>n. CHR ''-'' \<notin> set (str_nat n)"
    using str_nat_digits by fastforce
  have hd_ne: "\<And>n. hd (str_nat n) \<noteq> CHR ''-''"
    using nd str_nat_nonempty by (metis hd_in_set)
  show "i = j"
  proof (cases "i < 0")
    case True
    show ?thesis
    proof (cases "j < 0")
      case jn: True
      with True eq have "str_nat (nat (- i)) = str_nat (nat (- j))"
        by (simp add: str_int_def)
      then have "nat (- i) = nat (- j)" by (rule str_nat_inj)
      with True jn show ?thesis by simp
    next
      case False
      with True eq have "CHR ''-'' # str_nat (nat (- i)) = str_nat (nat j)"
        by (simp add: str_int_def)
      then have "hd (str_nat (nat j)) = CHR ''-''" by (metis list.sel(1))
      with hd_ne show ?thesis by blast
    qed
  next
    case False
    show ?thesis
    proof (cases "j < 0")
      case True
      with False eq have "str_nat (nat i) = CHR ''-'' # str_nat (nat (- j))"
        by (simp add: str_int_def)
      then have "hd (str_nat (nat i)) = CHR ''-''" by (metis list.sel(1))
      with hd_ne show ?thesis by blast
    next
      case jn: False
      with False eq have "str_nat (nat i) = str_nat (nat j)"
        by (simp add: str_int_def)
      then have "nat i = nat j" by (rule str_nat_inj)
      with False jn show ?thesis by simp
    qed
  qed
qed

lemma str_int_no_slash: "CHR ''/'' \<notin> set (str_int i)"
  using str_nat_digits [of "nat i"] str_nat_digits [of "nat (- i)"]
  by (auto simp: str_int_def)

section \<open>Validators: properties\<close>

text \<open>
  C3. The claim: every validator is total, returns a boolean and throws no
  exception, the path validator on the empty string included. The path validator
  indexes the first character before looking at the length, so on the empty string
  it raises \<^verbatim>\<open>IndexError\<close> instead of returning a boolean.
\<close>

theorem IsValidPath_empty_raises: "IsValidPath '''' = Inl IndexError"
  by (simp add: IsValidPath_def)

text \<open>
  C4. The claim: a name is valid exactly when it starts with a lowercase letter,
  consists of lowercase letters, digits and hyphens only, and does not end with a
  hyphen. The examples of the claim come out as stated, but the pattern's final
  \<^verbatim>\<open>$\<close> also accepts a name followed by one newline, such as \<^verbatim>\<open>"a\n"\<close>, which
  contains a character outside the grammar.
\<close>

theorem IsRfc1035Name_newline_accepted:
  "IsRfc1035Name ''a'' \<and> IsRfc1035Name ''abc-123-def''
   \<and> \<not> IsRfc1035Name ''1'' \<and> \<not> IsRfc1035Name ''ab-''
   \<and> \<not> IsRfc1035Name ''A.B'' \<and> \<not> IsRfc1035Name ''a_b''
   \<and> IsRfc1035Name [CHR ''a'', CHR 0x0A]"
  by code_simp

section \<open>Volume mounts\<close>

lemmas rfc_eval = IsRfc1035Name_def match_dollar_def RE_RFC1035_NAME_def lower_def digit_def
  only_def in_cls_def in_range_def newline_def

lemma LoadVolumes_loop_valid:
  "LoadVolumes_loop i vs acc = Inr all_vols \<Longrightarrow> \<forall>v \<in> set acc. IsRfc1035Name v
     \<Longrightarrow> \<forall>v \<in> set all_vols. IsRfc1035Name v"
proof (induction vs arbitrary: i acc)
  case Nil
  then show ?case by simp
next
  case (Cons vol rest)
  from Cons.prems(1) obtain n where n: "v_name vol = Some n" "IsRfc1035Name n"
      "n \<notin> set acc" "LoadVolumes_loop (Suc i) rest (acc @ [n]) = Inr all_vols"
    by (auto split: option.splits if_splits)
  from Cons.prems(2) n(2) have "\<forall>v \<in> set (acc @ [n]). IsRfc1035Name v" by simp
  with Cons.IH [OF n(4)] show ?case .
qed

lemma LoadVolumes_valid:
  "LoadVolumes volumes = Inr all_volumes \<Longrightarrow> v \<in> set all_volumes \<Longrightarrow> IsRfc1035Name v"
  unfolding LoadVolumes_def using LoadVolumes_loop_valid [of 0 volumes "[]" all_volumes] by simp

lemma LoadVolumeMounts_entry_ok:
  assumes "IsRfc1035Name v" "v \<in> set all_volumes" "IsValidPath p = Inr True"
  shows "LoadVolumeMounts_entry ctr_name i
           \<lparr> m_name = Some v, m_path = Some p, m_readOnly = ro \<rparr> all_volumes
         = Inr (''/export/'' @ v @ '':'' @ p @ '':'' @ (if ro = Some True then ''ro'' else ''rw''))"
  using assms
  by (cases ro) (auto simp: LoadVolumeMounts_entry_def get_default_def VOLUMES_ROOT_DIR_def)

lemma LoadVolumeMounts_loop_ok:
  assumes "\<forall>(v, p, ro) \<in> set ms. IsRfc1035Name v \<and> v \<in> set all_volumes \<and> IsValidPath p = Inr True"
  shows "LoadVolumeMounts_loop ctr_name i
           (map (\<lambda>(v, p, ro). \<lparr> m_name = Some v, m_path = Some p, m_readOnly = ro \<rparr>) ms)
           all_volumes acc
         = Inr (acc @ map (\<lambda>(v, p, ro). ''/export/'' @ v @ '':'' @ p @ '':''
                             @ (if ro = Some True then ''ro'' else ''rw'')) ms)"
  using assms
proof (induction ms arbitrary: i acc)
  case Nil
  then show ?case by simp
next
  case (Cons m ms)
  obtain v p ro where m: "m = (v, p, ro)" by (cases m) auto
  from Cons.prems m have ok: "IsRfc1035Name v" "v \<in> set all_volumes" "IsValidPath p = Inr True"
    by auto
  from Cons.prems have rest:
    "\<forall>(v, p, ro) \<in> set ms. IsRfc1035Name v \<and> v \<in> set all_volumes \<and> IsValidPath p = Inr True"
    by simp
  show ?case
    using Cons.IH [OF rest] by (simp add: m LoadVolumeMounts_entry_ok [OF ok])
qed

text \<open>
  C6. For mount entries that each name a declared volume \<open>v\<close> and give a valid
  absolute container path \<open>p\<close>, the mounts sub-pass succeeds and the directive of
  each entry is exactly \<^verbatim>\<open>/export/v:p:rw\<close> when \<^verbatim>\<open>readOnly\<close> is absent or false and
  \<^verbatim>\<open>/export/v:p:ro\<close> when it is true, in entry order. The declared volumes are the
  result of the volumes pass, whatever the manifest.
\<close>

theorem LoadVolumeMounts_directives:
  assumes "LoadVolumes volumes = Inr all_volumes"
    and "\<forall>(v, p, ro) \<in> set ms. v \<in> set all_volumes \<and> IsValidPath p = Inr True"
  shows "LoadVolumeMounts
           (map (\<lambda>(v, p, ro). \<lparr> m_name = Some v, m_path = Some p, m_readOnly = ro \<rparr>) ms)
           all_volumes ctr_name
         = Inr (map (\<lambda>(v, p, ro). ''/export/'' @ v @ '':'' @ p @ '':''
                       @ (if ro = Some True then ''ro'' else ''rw'')) ms)"
proof -
  from assms have
    "\<forall>(v, p, ro) \<in> set ms. IsRfc1035Name v \<and> v \<in> set all_volumes \<and> IsValidPath p = Inr True"
    using LoadVolumes_valid by fastforce
  from LoadVolumeMounts_loop_ok [OF this, of ctr_name 0 "[]"] show ?thesis
    by (simp add: LoadVolumeMounts_def)
qed

theorem LoadVolumeMounts_directives_witness:
  "LoadVolumes [\<lparr> v_name = Some ''vol1'' \<rparr>] = Inr [''vol1'']
   \<and> LoadVolumeMounts
       [\<lparr> m_name = Some ''vol1'', m_path = Some ''/mnt'', m_readOnly = None \<rparr>,
        \<lparr> m_name = Some ''vol1'', m_path = Some ''/mnt'', m_readOnly = Some False \<rparr>,
        \<lparr> m_name = Some ''vol1'', m_path = Some ''/mnt'', m_readOnly = Some True \<rparr>]
       [''vol1''] ''web''
     = Inr [''/export/vol1:/mnt:rw'', ''/export/vol1:/mnt:rw'', ''/export/vol1:/mnt:ro'']"
proof -
  have vols: "LoadVolumes [\<lparr> v_name = Some ''vol1'' \<rparr>] = Inr [''vol1'']"
    by (simp add: LoadVolumes_def rfc_eval)
  have ok: "\<forall>(v, p, ro) \<in> set [(''vol1'', ''/mnt'', None), (''vol1'', ''/mnt'', Some False),
                (''vol1'', ''/mnt'', Some True)].
              v \<in> set [''vol1''] \<and> IsValidPath p = Inr True"
    by (simp add: IsValidPath_def MAX_PATH_LEN_def)
  from LoadVolumeMounts_directives [OF vols ok, of "''web''"] vols show ?thesis by simp
qed

section \<open>Environment variables\<close>

lemmas ctoken_eval = IsCToken_def match_dollar_def RE_C_TOKEN_def lower_def upper_def digit_def
  only_def in_cls_def in_range_def newline_def

lemma LoadEnvVars_loop_ok:
  assumes "\<forall>(k, v) \<in> set kvs. IsCToken k"
  shows "LoadEnvVars_loop ctr_name i
           (map (\<lambda>(k, v). \<lparr> e_key = Some k, e_value = Some v \<rparr>) kvs) acc
         = Inr (acc @ map (\<lambda>(k, v). k @ ''='' @ v) kvs)"
  using assms
proof (induction kvs arbitrary: i acc)
  case Nil
  then show ?case by simp
next
  case (Cons kv kvs)
  obtain k v where kv: "kv = (k, v)" by (cases kv) auto
  from Cons.prems kv have k: "IsCToken k" by simp
  from Cons.prems have rest: "\<forall>(k, v) \<in> set kvs. IsCToken k" by simp
  show ?case
    using Cons.IH [OF rest] k by (simp add: kv LoadEnvVars_entry_def)
qed

text \<open>
  C9. For environment entries that each have a key \<open>K\<close> accepted by the C-token
  validator and a value \<open>V\<close>, the environment sub-pass succeeds and yields the
  strings \<open>K=V\<close> in entry order, the value taken as it is. Nothing is assumed
  about keys being distinct: a repeated key gives one assignment per occurrence.
\<close>

theorem LoadEnvVars_assignments:
  assumes "\<forall>(k, v) \<in> set kvs. IsCToken k"
  shows "LoadEnvVars (map (\<lambda>(k, v). \<lparr> e_key = Some k, e_value = Some v \<rparr>) kvs) ctr_name
         = Inr (map (\<lambda>(k, v). k @ ''='' @ v) kvs)"
  using LoadEnvVars_loop_ok [OF assms, of ctr_name 0 "[]"] by (simp add: LoadEnvVars_def)

theorem LoadEnvVars_assignments_witness:
  "LoadEnvVars
     [\<lparr> e_key = Some ''KEY'', e_value = Some ''value str'' \<rparr>,
      \<lparr> e_key = Some ''_x1'', e_value = Some '''' \<rparr>,
      \<lparr> e_key = Some ''KEY'', e_value = Some '' a=b  '' \<rparr>] ''web''
   = Inr [''KEY=value str'', ''_x1='', ''KEY= a=b  '']"
proof -
  have ok: "\<forall>(k, v) \<in> set [(''KEY'', ''value str''), (''_x1'', ''''), (''KEY'', '' a=b  '')].
              IsCToken k"
    by (simp add: ctoken_eval)
  from LoadEnvVars_assignments [OF ok, of "''web''"] show ?thesis by simp
qed

section \<open>Ports\<close>

lemma LoadPorts_name_Inr:
  "(LoadPorts_name ctr i p names = Inr (pn, names')) =
     (case p_name p of
        Some n \<Rightarrow> IsRfc1035Name n \<and> n \<notin> set names \<and> pn = n \<and> names' = names @ [n]
      | None \<Rightarrow> pn = str_nat i \<and> names' = names)"
  by (auto simp: LoadPorts_name_def split: option.splits)

lemma LoadPorts_name_Fatal: "LoadPorts_name ctr i p names \<noteq> Inl IndexError"
  by (auto simp: LoadPorts_name_def split: option.splits)

lemma LoadPorts_binding_Inr:
  "(LoadPorts_binding ctr pn p hosts = Inr b) =
     (\<exists>c. p_containerPort p = Some c \<and> IsValidPort c
          \<and> IsValidPort (get_default (p_hostPort p) c)
          \<and> get_default (p_hostPort p) c \<notin> set hosts
          \<and> IsValidProtocol (get_default (p_protocol p) ''TCP'')
          \<and> b = (get_default (p_hostPort p) c, c,
                  ProtocolString (get_default (p_protocol p) ''TCP'')))"
  by (auto simp: LoadPorts_binding_def Let_def split: option.splits)

lemma LoadPorts_binding_Fatal: "LoadPorts_binding ctr pn p hosts \<noteq> Inl IndexError"
  by (auto simp: LoadPorts_binding_def Let_def split: option.splits)

lemma LoadPorts_loop_Fatal:
  "LoadPorts_loop ctr i ps acc names hosts \<noteq> Inl IndexError"
proof (induction ps arbitrary: i acc names hosts)
  case Nil
  show ?case by simp
next
  case (Cons p ps)
  show ?case
    using Cons.IH LoadPorts_name_Fatal [of ctr i p names]
    by (auto split: sum.splits simp: LoadPorts_binding_Fatal)
qed

lemma map_filter_Cons_name:
  "List.map_filter p_name (p # ps) =
     (case p_name p of None \<Rightarrow> List.map_filter p_name ps
      | Some n \<Rightarrow> n # List.map_filter p_name ps)"
  by (simp add: List.map_filter_simps split: option.splits)

lemma LoadPorts_loop_Inr:
  "(LoadPorts_loop ctr i ps acc names hosts = Inr out) =
     ((\<forall>p \<in> set ps. port_entry_ok p)
      \<and> distinct (List.map_filter p_name ps)
      \<and> set (List.map_filter p_name ps) \<inter> set names = {}
      \<and> (\<exists>bs. out = acc @ bs \<and> map Some bs = map spec_binding ps
               \<and> distinct (map fst bs) \<and> set (map fst bs) \<inter> set hosts = {}))"
proof (induction ps arbitrary: i acc names hosts)
  case Nil
  show ?case by auto
next
  case (Cons p ps)
  show ?case
  proof (cases "p_name p")
    case None
    show ?thesis
    proof
      assume run: "LoadPorts_loop ctr i (p # ps) acc names hosts = Inr out"
      then obtain b where b: "LoadPorts_binding ctr (str_nat i) p hosts = Inr b"
        and rest: "LoadPorts_loop ctr (Suc i) ps (acc @ [b]) names (hosts @ [fst b]) = Inr out"
        by (auto simp: LoadPorts_name_def None split: sum.splits)
      from b obtain c where c: "p_containerPort p = Some c" "IsValidPort c"
          "IsValidPort (get_default (p_hostPort p) c)"
          "get_default (p_hostPort p) c \<notin> set hosts"
          "IsValidProtocol (get_default (p_protocol p) ''TCP'')"
          "b = (get_default (p_hostPort p) c, c,
                ProtocolString (get_default (p_protocol p) ''TCP''))"
        unfolding LoadPorts_binding_Inr by blast
      from rest [unfolded Cons.IH] obtain bs where bs:
          "\<forall>p \<in> set ps. port_entry_ok p" "distinct (List.map_filter p_name ps)"
          "set (List.map_filter p_name ps) \<inter> set names = {}"
          "out = (acc @ [b]) @ bs" "map Some bs = map spec_binding ps"
          "distinct (map fst bs)" "set (map fst bs) \<inter> set (hosts @ [fst b]) = {}"
        by blast
      have ok: "port_entry_ok p"
        using c None by (simp add: port_entry_ok_def)
      have sb: "spec_binding p = Some b"
        using c by (simp add: spec_binding_def)
      have "out = acc @ (b # bs)" using bs(4) by simp
      moreover have "map Some (b # bs) = map spec_binding (p # ps)"
        using sb bs(5) by simp
      moreover have "distinct (map fst (b # bs))"
        using bs(6,7) by auto
      moreover have "set (map fst (b # bs)) \<inter> set hosts = {}"
        using bs(7) c(4,6) by auto
      ultimately show "(\<forall>p \<in> set (p # ps). port_entry_ok p)
          \<and> distinct (List.map_filter p_name (p # ps))
          \<and> set (List.map_filter p_name (p # ps)) \<inter> set names = {}
          \<and> (\<exists>bs. out = acc @ bs \<and> map Some bs = map spec_binding (p # ps)
                   \<and> distinct (map fst bs) \<and> set (map fst bs) \<inter> set hosts = {})"
        using ok bs(1,2,3) None by (auto simp: map_filter_Cons_name)
    next
      assume rhs: "(\<forall>p \<in> set (p # ps). port_entry_ok p)
          \<and> distinct (List.map_filter p_name (p # ps))
          \<and> set (List.map_filter p_name (p # ps)) \<inter> set names = {}
          \<and> (\<exists>bs. out = acc @ bs \<and> map Some bs = map spec_binding (p # ps)
                   \<and> distinct (map fst bs) \<and> set (map fst bs) \<inter> set hosts = {})"
      then obtain bs0 where bs0: "out = acc @ bs0" "map Some bs0 = map spec_binding (p # ps)"
          "distinct (map fst bs0)" "set (map fst bs0) \<inter> set hosts = {}"
        by blast
      from bs0(2) obtain b bs where bb: "bs0 = b # bs" "spec_binding p = Some b"
          "map Some bs = map spec_binding ps"
        by (cases bs0) auto
      from rhs have ok: "port_entry_ok p" by simp
      then obtain c where c: "p_containerPort p = Some c" "IsValidPort c"
          "IsValidPort (get_default (p_hostPort p) c)"
          "IsValidProtocol (get_default (p_protocol p) ''TCP'')"
        by (auto simp: port_entry_ok_def)
      with bb(2) have b: "b = (get_default (p_hostPort p) c, c,
                ProtocolString (get_default (p_protocol p) ''TCP''))"
        by (simp add: spec_binding_def)
      have fresh: "get_default (p_hostPort p) c \<notin> set hosts"
        using bs0(4) bb(1) b by auto
      have step: "LoadPorts_binding ctr (str_nat i) p hosts = Inr b"
        unfolding LoadPorts_binding_Inr using c b fresh by blast
      have "LoadPorts_loop ctr (Suc i) ps (acc @ [b]) names (hosts @ [fst b]) = Inr out"
        unfolding Cons.IH using rhs bs0 bb None
        by (auto simp: map_filter_Cons_name)
      with step show "LoadPorts_loop ctr i (p # ps) acc names hosts = Inr out"
        by (simp add: LoadPorts_name_def None)
    qed
  next
    case (Some n)
    show ?thesis
    proof
      assume run: "LoadPorts_loop ctr i (p # ps) acc names hosts = Inr out"
      then obtain b where nm: "IsRfc1035Name n" "n \<notin> set names"
        and b: "LoadPorts_binding ctr n p hosts = Inr b"
        and rest: "LoadPorts_loop ctr (Suc i) ps (acc @ [b]) (names @ [n]) (hosts @ [fst b]) = Inr out"
        by (auto simp: LoadPorts_name_def Some split: sum.splits if_splits)
      from b obtain c where c: "p_containerPort p = Some c" "IsValidPort c"
          "IsValidPort (get_default (p_hostPort p) c)"
          "get_default (p_hostPort p) c \<notin> set hosts"
          "IsValidProtocol (get_default (p_protocol p) ''TCP'')"
          "b = (get_default (p_hostPort p) c, c,
                ProtocolString (get_default (p_protocol p) ''TCP''))"
        unfolding LoadPorts_binding_Inr by blast
      from rest [unfolded Cons.IH] obtain bs where bs:
          "\<forall>p \<in> set ps. port_entry_ok p" "distinct (List.map_filter p_name ps)"
          "set (List.map_filter p_name ps) \<inter> set (names @ [n]) = {}"
          "out = (acc @ [b]) @ bs" "map Some bs = map spec_binding ps"
          "distinct (map fst bs)" "set (map fst bs) \<inter> set (hosts @ [fst b]) = {}"
        by blast
      have ok: "port_entry_ok p"
        using c Some nm by (simp add: port_entry_ok_def)
      have sb: "spec_binding p = Some b"
        using c by (simp add: spec_binding_def)
      have "out = acc @ (b # bs)" using bs(4) by simp
      moreover have "map Some (b # bs) = map spec_binding (p # ps)"
        using sb bs(5) by simp
      moreover have "distinct (map fst (b # bs))"
        using bs(6,7) by auto
      moreover have "set (map fst (b # bs)) \<inter> set hosts = {}"
        using bs(7) c(4,6) by auto
      moreover have "distinct (List.map_filter p_name (p # ps))"
        using bs(2,3) Some by (auto simp: map_filter_Cons_name)
      moreover have "set (List.map_filter p_name (p # ps)) \<inter> set names = {}"
        using bs(3) nm(2) Some by (auto simp: map_filter_Cons_name)
      ultimately show "(\<forall>p \<in> set (p # ps). port_entry_ok p)
          \<and> distinct (List.map_filter p_name (p # ps))
          \<and> set (List.map_filter p_name (p # ps)) \<inter> set names = {}
          \<and> (\<exists>bs. out = acc @ bs \<and> map Some bs = map spec_binding (p # ps)
                   \<and> distinct (map fst bs) \<and> set (map fst bs) \<inter> set hosts = {})"
        using ok bs(1) by auto
    next
      assume rhs: "(\<forall>p \<in> set (p # ps). port_entry_ok p)
          \<and> distinct (List.map_filter p_name (p # ps))
          \<and> set (List.map_filter p_name (p # ps)) \<inter> set names = {}
          \<and> (\<exists>bs. out = acc @ bs \<and> map Some bs = map spec_binding (p # ps)
                   \<and> distinct (map fst bs) \<and> set (map fst bs) \<inter> set hosts = {})"
      then obtain bs0 where bs0: "out = acc @ bs0" "map Some bs0 = map spec_binding (p # ps)"
          "distinct (map fst bs0)" "set (map fst bs0) \<inter> set hosts = {}"
        by blast
      from bs0(2) obtain b bs where bb: "bs0 = b # bs" "spec_binding p = Some b"
          "map Some bs = map spec_binding ps"
        by (cases bs0) auto
      from rhs have ok: "port_entry_ok p" by simp
      then obtain c where c: "p_containerPort p = Some c" "IsValidPort c"
          "IsValidPort (get_default (p_hostPort p) c)"
          "IsValidProtocol (get_default (p_protocol p) ''TCP'')"
        by (auto simp: port_entry_ok_def)
      from ok Some have nm: "IsRfc1035Name n" by (simp add: port_entry_ok_def)
      from rhs Some have nfresh: "n \<notin> set names" "n \<notin> set (List.map_filter p_name ps)"
          "distinct (List.map_filter p_name ps)"
          "set (List.map_filter p_name ps) \<inter> set names = {}"
        by (auto simp: map_filter_Cons_name)
      with bb(2) c have b: "b = (get_default (p_hostPort p) c, c,
                ProtocolString (get_default (p_protocol p) ''TCP''))"
        by (simp add: spec_binding_def)
      have fresh: "get_default (p_hostPort p) c \<notin> set hosts"
        using bs0(4) bb(1) b by auto
      have step: "LoadPorts_binding ctr n p hosts = Inr b"
        unfolding LoadPorts_binding_Inr using c b fresh by blast
      have "LoadPorts_loop ctr (Suc i) ps (acc @ [b]) (names @ [n]) (hosts @ [fst b]) = Inr out"
        unfolding Cons.IH using rhs bs0 bb nfresh
        by auto
      with step nm nfresh(1) show "LoadPorts_loop ctr i (p # ps) acc names hosts = Inr out"
        by (simp add: LoadPorts_name_def Some)
    qed
  qed
qed

lemma LoadPorts_Inr:
  "(LoadPorts ps ctr = Inr out) =
     ((\<forall>p \<in> set ps. port_entry_ok p) \<and> distinct (List.map_filter p_name ps)
      \<and> distinct (map fst out) \<and> map Some out = map spec_binding ps)"
  unfolding LoadPorts_def LoadPorts_loop_Inr by auto

lemma LoadPorts_Fatal: "LoadPorts ps ctr = Inl e \<Longrightarrow> \<exists>msg. e = Fatal msg"
  using LoadPorts_loop_Fatal [of ctr 0 ps "[]" "[]" "[]"]
  by (cases e) (auto simp: LoadPorts_def)

lemma LoadPorts_fails:
  assumes "\<And>out. LoadPorts ps ctr \<noteq> Inr out"
  shows "\<exists>msg. LoadPorts ps ctr = Inl (Fatal msg)"
proof (cases "LoadPorts ps ctr")
  case (Inl e)
  with LoadPorts_Fatal [OF Inl] show ?thesis by auto
next
  case (Inr out)
  with assms show ?thesis by blast
qed

lemma spec_binding_hosts:
  assumes "map Some out = map spec_binding ps"
  shows "map (map_option fst \<circ> spec_binding) ps = map Some (map fst out)"
proof -
  have "map (map_option fst \<circ> spec_binding) ps = map (map_option fst) (map spec_binding ps)"
    by simp
  also have "\<dots> = map (map_option fst) (map Some out)" using assms by simp
  also have "\<dots> = map Some (map fst out)" by simp
  finally show ?thesis .
qed

text \<open>
  C7. The ports sub-pass succeeds exactly when every entry has a valid name (if
  any), a valid \<^verbatim>\<open>containerPort\<close>, a valid host port (\<^verbatim>\<open>hostPort\<close>, or the container
  port when absent) and a valid protocol (\<^verbatim>\<open>TCP\<close> when absent), the names are
  distinct and the host ports are distinct; the result is then the list of
  bindings in entry order. Every failure is a fatal error, in particular a
  missing \<^verbatim>\<open>containerPort\<close>, an invalid \<^verbatim>\<open>hostPort\<close>, a repeated host port and a
  protocol other than \<^verbatim>\<open>TCP\<close> and \<^verbatim>\<open>UDP\<close>.
\<close>

theorem LoadPorts_subpass:
  "(\<forall>out. (LoadPorts ps ctr = Inr out) =
           ((\<forall>p \<in> set ps. port_entry_ok p) \<and> distinct (List.map_filter p_name ps)
            \<and> distinct (map fst out) \<and> map Some out = map spec_binding ps))
   \<and> (\<forall>e. LoadPorts ps ctr = Inl e \<longrightarrow> (\<exists>msg. e = Fatal msg))
   \<and> ((\<exists>p \<in> set ps. p_containerPort p = None)
        \<longrightarrow> (\<exists>msg. LoadPorts ps ctr = Inl (Fatal msg)))
   \<and> ((\<exists>p \<in> set ps. \<exists>h. p_hostPort p = Some h \<and> \<not> IsValidPort h)
        \<longrightarrow> (\<exists>msg. LoadPorts ps ctr = Inl (Fatal msg)))
   \<and> (\<not> distinct (map (map_option fst \<circ> spec_binding) ps)
        \<longrightarrow> (\<exists>msg. LoadPorts ps ctr = Inl (Fatal msg)))
   \<and> ((\<exists>p \<in> set ps. \<exists>pr. p_protocol p = Some pr \<and> pr \<noteq> ''TCP'' \<and> pr \<noteq> ''UDP'')
        \<longrightarrow> (\<exists>msg. LoadPorts ps ctr = Inl (Fatal msg)))"
proof (intro conjI allI impI)
  fix out
  show "(LoadPorts ps ctr = Inr out) =
           ((\<forall>p \<in> set ps. port_entry_ok p) \<and> distinct (List.map_filter p_name ps)
            \<and> distinct (map fst out) \<and> map Some out = map spec_binding ps)"
    by (rule LoadPorts_Inr)
next
  fix e assume "LoadPorts ps ctr = Inl e"
  then show "\<exists>msg. e = Fatal msg" by (rule LoadPorts_Fatal)
next
  assume "\<exists>p \<in> set ps. p_containerPort p = None"
  then obtain p where "p \<in> set ps" "p_containerPort p = None" by blast
  then have "p \<in> set ps" "\<not> port_entry_ok p"
    by (simp_all add: port_entry_ok_def)
  then have "\<not> (\<forall>p \<in> set ps. port_entry_ok p)" by blast
  then show "\<exists>msg. LoadPorts ps ctr = Inl (Fatal msg)"
    by (intro LoadPorts_fails) (simp add: LoadPorts_Inr)
next
  assume "\<exists>p \<in> set ps. \<exists>h. p_hostPort p = Some h \<and> \<not> IsValidPort h"
  then obtain p h where "p \<in> set ps" "p_hostPort p = Some h" "\<not> IsValidPort h" by blast
  then have "p \<in> set ps" "\<not> port_entry_ok p"
    by (simp_all add: port_entry_ok_def get_default_def)
  then have "\<not> (\<forall>p \<in> set ps. port_entry_ok p)" by blast
  then show "\<exists>msg. LoadPorts ps ctr = Inl (Fatal msg)"
    by (intro LoadPorts_fails) (simp add: LoadPorts_Inr)
next
  assume nd: "\<not> distinct (map (map_option fst \<circ> spec_binding) ps)"
  show "\<exists>msg. LoadPorts ps ctr = Inl (Fatal msg)"
  proof (rule LoadPorts_fails)
    fix out
    show "LoadPorts ps ctr \<noteq> Inr out"
    proof
      assume "LoadPorts ps ctr = Inr out"
      then have d: "distinct (map fst out)" and m: "map Some out = map spec_binding ps"
        by (simp_all add: LoadPorts_Inr)
      from d have "distinct (map Some (map fst out))"
        by (subst distinct_map) (simp add: inj_on_def)
      with spec_binding_hosts [OF m] nd show False by simp
    qed
  qed
next
  assume "\<exists>p \<in> set ps. \<exists>pr. p_protocol p = Some pr \<and> pr \<noteq> ''TCP'' \<and> pr \<noteq> ''UDP''"
  then obtain p pr where "p \<in> set ps" "p_protocol p = Some pr" "pr \<noteq> ''TCP''" "pr \<noteq> ''UDP''"
    by blast
  then have "p \<in> set ps" "\<not> port_entry_ok p"
    by (simp_all add: port_entry_ok_def get_default_def IsValidProtocol_def VALID_PROTOCOLS_def
        PROTOCOL_TCP_def PROTOCOL_UDP_def)
  then have "\<not> (\<forall>p \<in> set ps. port_entry_ok p)" by blast
  then show "\<exists>msg. LoadPorts ps ctr = Inl (Fatal msg)"
    by (intro LoadPorts_fails) (simp add: LoadPorts_Inr)
qed

lemmas port_eval = port_entry_ok_def spec_binding_def get_default_def IsValidPort_def
  IsValidProtocol_def VALID_PROTOCOLS_def PROTOCOL_TCP_def PROTOCOL_UDP_def ProtocolString_def
  List.map_filter_simps

theorem LoadPorts_subpass_witness:
  "LoadPorts
     [\<lparr> p_name = None, p_containerPort = Some 80, p_hostPort = Some 8080, p_protocol = None \<rparr>,
      \<lparr> p_name = Some ''dns'', p_containerPort = Some 53, p_hostPort = None,
        p_protocol = Some ''UDP'' \<rparr>] ''web''
   = Inr [(8080, 80, ''''), (53, 53, ''/udp'')]
   \<and> (\<exists>msg. LoadPorts
        [\<lparr> p_name = None, p_containerPort = None, p_hostPort = Some 8080, p_protocol = None \<rparr>]
        ''web'' = Inl (Fatal msg))
   \<and> (\<exists>msg. LoadPorts
        [\<lparr> p_name = None, p_containerPort = Some 80, p_hostPort = Some 70000, p_protocol = None \<rparr>]
        ''web'' = Inl (Fatal msg))
   \<and> (\<exists>msg. LoadPorts
        [\<lparr> p_name = None, p_containerPort = Some 123, p_hostPort = Some 123, p_protocol = None \<rparr>,
         \<lparr> p_name = None, p_containerPort = Some 124, p_hostPort = Some 123, p_protocol = None \<rparr>]
        ''web'' = Inl (Fatal msg))
   \<and> (\<exists>msg. LoadPorts
        [\<lparr> p_name = None, p_containerPort = Some 80, p_hostPort = None,
           p_protocol = Some ''tcp'' \<rparr>]
        ''web'' = Inl (Fatal msg))"
proof (intro conjI)
  show "LoadPorts
     [\<lparr> p_name = None, p_containerPort = Some 80, p_hostPort = Some 8080, p_protocol = None \<rparr>,
      \<lparr> p_name = Some ''dns'', p_containerPort = Some 53, p_hostPort = None,
        p_protocol = Some ''UDP'' \<rparr>] ''web''
   = Inr [(8080, 80, ''''), (53, 53, ''/udp'')]"
    using LoadPorts_subpass [of 
     "[\<lparr> p_name = None, p_containerPort = Some 80, p_hostPort = Some 8080, p_protocol = None \<rparr>,
      \<lparr> p_name = Some ''dns'', p_containerPort = Some 53, p_hostPort = None,
        p_protocol = Some ''UDP'' \<rparr>]" "''web''"]
    by (simp add: port_eval rfc_eval)
next
  show "\<exists>msg. LoadPorts
        [\<lparr> p_name = None, p_containerPort = None, p_hostPort = Some 8080, p_protocol = None \<rparr>]
        ''web'' = Inl (Fatal msg)"
    using LoadPorts_subpass [of
      "[\<lparr> p_name = None, p_containerPort = None, p_hostPort = Some 8080, p_protocol = None \<rparr>]"
      "''web''"]
    by simp
next
  show "\<exists>msg. LoadPorts
        [\<lparr> p_name = None, p_containerPort = Some 80, p_hostPort = Some 70000, p_protocol = None \<rparr>]
        ''web'' = Inl (Fatal msg)"
    using LoadPorts_subpass [of
      "[\<lparr> p_name = None, p_containerPort = Some 80, p_hostPort = Some 70000, p_protocol = None \<rparr>]"
      "''web''"]
    by (simp add: IsValidPort_def)
next
  show "\<exists>msg. LoadPorts
        [\<lparr> p_name = None, p_containerPort = Some 123, p_hostPort = Some 123, p_protocol = None \<rparr>,
         \<lparr> p_name = None, p_containerPort = Some 124, p_hostPort = Some 123, p_protocol = None \<rparr>]
        ''web'' = Inl (Fatal msg)"
    using LoadPorts_subpass [of
      "[\<lparr> p_name = None, p_containerPort = Some 123, p_hostPort = Some 123, p_protocol = None \<rparr>,
         \<lparr> p_name = None, p_containerPort = Some 124, p_hostPort = Some 123, p_protocol = None \<rparr>]"
      "''web''"]
    by (simp add: spec_binding_def get_default_def)
next
  show "\<exists>msg. LoadPorts
        [\<lparr> p_name = None, p_containerPort = Some 80, p_hostPort = None,
           p_protocol = Some ''tcp'' \<rparr>]
        ''web'' = Inl (Fatal msg)"
    using LoadPorts_subpass [of
      "[\<lparr> p_name = None, p_containerPort = Some 80, p_hostPort = None,
           p_protocol = Some ''tcp'' \<rparr>]"
      "''web''"]
    by simp
qed

section \<open>Group-wide conflicts\<close>

lemma key_inj:
  assumes "s1 \<in> {'''', ''/udp''}" "s2 \<in> {'''', ''/udp''}"
  shows "(str_int a @ s1 = str_int b @ s2) = (a = b \<and> s1 = s2)"
proof
  assume eq: "str_int a @ s1 = str_int b @ s2"
  have ns: "\<And>i j. str_int i \<noteq> str_int j @ ''/udp''"
  proof
    fix i j assume "str_int i = str_int j @ ''/udp''"
    then have "CHR ''/'' \<in> set (str_int i)" by simp
    with str_int_no_slash show False by blast
  qed
  from assms eq ns [of a b] ns [of b a] have "s1 = s2" by auto
  with eq have "str_int a = str_int b" by simp
  with \<open>s1 = s2\<close> show "a = b \<and> s1 = s2" by (simp add: str_int_inj)
next
  assume "a = b \<and> s1 = s2"
  then show "str_int a @ s1 = str_int b @ s2" by simp
qed

lemma distinct_map_cong_keys:
  assumes "\<And>x y. x \<in> set xs \<Longrightarrow> y \<in> set xs \<Longrightarrow> (f x = f y) = (g x = g y)"
  shows "distinct (map f xs) = distinct (map g xs)"
  using assms
proof (induction xs)
  case Nil
  show ?case by simp
next
  case (Cons x xs)
  have "(f x \<in> f ` set xs) = (g x \<in> g ` set xs)"
  proof
    assume "f x \<in> f ` set xs"
    then obtain y where "y \<in> set xs" "f x = f y" by blast
    with Cons.prems [of x y] show "g x \<in> g ` set xs" by auto
  next
    assume "g x \<in> g ` set xs"
    then obtain y where "y \<in> set xs" "g x = g y" by blast
    with Cons.prems [of x y] show "f x \<in> f ` set xs" by auto
  qed
  moreover have "distinct (map f xs) = distinct (map g xs)"
    using Cons.IH Cons.prems by simp
  ultimately show ?case by simp
qed

lemma CheckPorts_loop_Inr:
  "(CheckPorts_loop ps H C = Inr (H', C')) =
     (distinct (map host_key ps) \<and> set (map host_key ps) \<inter> H = {}
      \<and> distinct (map ctr_key ps) \<and> set (map ctr_key ps) \<inter> C = {}
      \<and> H' = H \<union> set (map host_key ps) \<and> C' = C \<union> set (map ctr_key ps))"
proof (induction ps arbitrary: H C)
  case Nil
  show ?case by auto
next
  case (Cons p ps)
  show ?case
  proof (cases "host_key p \<in> H \<or> ctr_key p \<in> C")
    case True
    then have "\<exists>e. CheckPorts_loop (p # ps) H C = Inl e" by auto
    moreover from True
    have "\<not> (set (map host_key (p # ps)) \<inter> H = {} \<and> set (map ctr_key (p # ps)) \<inter> C = {})"
      by auto
    ultimately show ?thesis by auto
  next
    case False
    then have step: "CheckPorts_loop (p # ps) H C
        = CheckPorts_loop ps (insert (host_key p) H) (insert (ctr_key p) C)"
      by simp
    have h: "(distinct (map host_key (p # ps)) \<and> set (map host_key (p # ps)) \<inter> H = {}) =
        (distinct (map host_key ps) \<and> set (map host_key ps) \<inter> insert (host_key p) H = {})"
      using False by auto
    have c: "(distinct (map ctr_key (p # ps)) \<and> set (map ctr_key (p # ps)) \<inter> C = {}) =
        (distinct (map ctr_key ps) \<and> set (map ctr_key ps) \<inter> insert (ctr_key p) C = {})"
      using False by auto
    have hu: "H \<union> set (map host_key (p # ps)) = insert (host_key p) H \<union> set (map host_key ps)"
      by auto
    have cu: "C \<union> set (map ctr_key (p # ps)) = insert (ctr_key p) C \<union> set (map ctr_key ps)"
      by auto
    show ?thesis
      unfolding step Cons.IH hu cu using h c by blast
  qed
qed

lemma CheckPorts_loop_Inl:
  "CheckPorts_loop ps H C = Inl e \<Longrightarrow>
     \<exists>k. e = Fatal (''host port '' @ k @ '' is not unique group-wide'')
        \<or> e = Fatal (''container port '' @ k @ '' is not unique group-wide'')"
proof (induction ps arbitrary: H C)
  case Nil
  then show ?case by simp
next
  case (Cons p ps)
  then show ?case by (auto split: if_splits)
qed

lemma distinct_append_disjoint:
  "(distinct (xs @ ys) \<and> set (xs @ ys) \<inter> H = {}
    \<and> distinct (us @ vs) \<and> set (us @ vs) \<inter> C = {}) =
     ((distinct xs \<and> set xs \<inter> H = {} \<and> distinct us \<and> set us \<inter> C = {})
      \<and> (distinct ys \<and> set ys \<inter> (H \<union> set xs) = {}
         \<and> distinct vs \<and> set vs \<inter> (C \<union> set us) = {}))"
  by auto

lemma CheckGroupWideConflicts_loop_Inr:
  "(CheckGroupWideConflicts_loop cs H C = Inr ()) =
     (distinct (map host_key (concat (map ports cs)))
      \<and> set (map host_key (concat (map ports cs))) \<inter> H = {}
      \<and> distinct (map ctr_key (concat (map ports cs)))
      \<and> set (map ctr_key (concat (map ports cs))) \<inter> C = {})"
proof (induction cs arbitrary: H C)
  case Nil
  show ?case by simp
next
  case (Cons c cs)
  define hs1 where "hs1 = map host_key (ports c)"
  define hs2 where "hs2 = map host_key (concat (map ports cs))"
  define cs1 where "cs1 = map ctr_key (ports c)"
  define cs2 where "cs2 = map ctr_key (concat (map ports cs))"
  define P1 where "P1 = (distinct hs1 \<and> set hs1 \<inter> H = {} \<and> distinct cs1 \<and> set cs1 \<inter> C = {})"
  define P2 where "P2 = (distinct hs2 \<and> set hs2 \<inter> (H \<union> set hs1) = {}
         \<and> distinct cs2 \<and> set cs2 \<inter> (C \<union> set cs1) = {})"
  have e1: "map host_key (concat (map ports (c # cs))) = hs1 @ hs2"
    by (simp add: hs1_def hs2_def)
  have e2: "map ctr_key (concat (map ports (c # cs))) = cs1 @ cs2"
    by (simp add: cs1_def cs2_def)
  have goal_rhs: "(distinct (map host_key (concat (map ports (c # cs))))
      \<and> set (map host_key (concat (map ports (c # cs)))) \<inter> H = {}
      \<and> distinct (map ctr_key (concat (map ports (c # cs))))
      \<and> set (map ctr_key (concat (map ports (c # cs)))) \<inter> C = {}) = (P1 \<and> P2)"
    unfolding e1 e2 P1_def P2_def by (rule distinct_append_disjoint)
  have hd: "\<And>H' C'. (CheckPorts_loop (ports c) H C = Inr (H', C')) =
      (P1 \<and> H' = H \<union> set hs1 \<and> C' = C \<union> set cs1)"
    unfolding P1_def hs1_def cs1_def CheckPorts_loop_Inr by (simp add: conj_assoc)
  have ih: "(CheckGroupWideConflicts_loop cs (H \<union> set hs1) (C \<union> set cs1) = Inr ()) = P2"
    unfolding P2_def hs2_def cs2_def by (rule Cons.IH)
  show ?case
  proof (cases "CheckPorts_loop (ports c) H C")
    case (Inl e)
    have "\<not> P1"
    proof
      assume P1
      then have "CheckPorts_loop (ports c) H C = Inr (H \<union> set hs1, C \<union> set cs1)"
        unfolding hd by simp
      with Inl show False by simp
    qed
    moreover have step: "CheckGroupWideConflicts_loop (c # cs) H C = Inl e"
      using Inl by simp
    ultimately show ?thesis
      unfolding goal_rhs step by simp
  next
    case (Inr r)
    obtain H' C' where r: "r = (H', C')" by (cases r) auto
    from Inr [unfolded r hd] have 1: P1 "H' = H \<union> set hs1" "C' = C \<union> set cs1"
      by simp_all
    have step: "CheckGroupWideConflicts_loop (c # cs) H C
        = CheckGroupWideConflicts_loop cs (H \<union> set hs1) (C \<union> set cs1)"
      using Inr r 1 by simp
    show ?thesis
      unfolding goal_rhs step ih using 1(1) by simp
  qed
qed

lemma CheckGroupWideConflicts_loop_Inl:
  "CheckGroupWideConflicts_loop cs H C = Inl e \<Longrightarrow>
     \<exists>k. e = Fatal (''host port '' @ k @ '' is not unique group-wide'')
        \<or> e = Fatal (''container port '' @ k @ '' is not unique group-wide'')"
proof (induction cs arbitrary: H C)
  case Nil
  then show ?case by simp
next
  case (Cons c cs)
  show ?case
  proof (cases "CheckPorts_loop (ports c) H C")
    case (Inl e')
    with Cons.prems have "e' = e" by simp
    with CheckPorts_loop_Inl [OF Inl] show ?thesis by simp
  next
    case (Inr r)
    obtain H' C' where r: "r = (H', C')" by (cases r) auto
    from Cons.prems Inr r have "CheckGroupWideConflicts_loop cs H' C' = Inl e" by simp
    then show ?thesis by (rule Cons.IH)
  qed
qed

lemma host_key_eq:
  assumes "snd (snd x) \<in> {'''', ''/udp''}" "snd (snd y) \<in> {'''', ''/udp''}"
  shows "(host_key x = host_key y) = ((fst x, snd (snd x)) = (fst y, snd (snd y)))"
  unfolding host_key_def using key_inj [OF assms] by simp

lemma ctr_key_eq:
  assumes "snd (snd x) \<in> {'''', ''/udp''}" "snd (snd y) \<in> {'''', ''/udp''}"
  shows "(ctr_key x = ctr_key y) = ((fst (snd x), snd (snd x)) = (fst (snd y), snd (snd y)))"
  unfolding ctr_key_def using key_inj [OF assms, of "fst (snd x)" "fst (snd y)"]
  by (simp add: prod_eq_iff)

lemma CheckGroupWideConflicts_Inr:
  assumes "\<forall>c \<in> set cs. \<forall>b \<in> set (ports c). snd (snd b) \<in> {'''', ''/udp''}"
  shows "(CheckGroupWideConflicts cs = Inr ()) =
     (distinct (map (\<lambda>b. (fst b, snd (snd b))) (concat (map ports cs)))
      \<and> distinct (map (\<lambda>b. (fst (snd b), snd (snd b))) (concat (map ports cs))))"
proof -
  have sfx: "\<And>b. b \<in> set (concat (map ports cs)) \<Longrightarrow> snd (snd b) \<in> {'''', ''/udp''}"
    using assms by auto
  have h: "distinct (map host_key (concat (map ports cs)))
      = distinct (map (\<lambda>b. (fst b, snd (snd b))) (concat (map ports cs)))"
    by (rule distinct_map_cong_keys) (rule host_key_eq; rule sfx)
  have c: "distinct (map ctr_key (concat (map ports cs)))
      = distinct (map (\<lambda>b. (fst (snd b), snd (snd b))) (concat (map ports cs)))"
    by (rule distinct_map_cong_keys) (rule ctr_key_eq; rule sfx)
  show ?thesis
    unfolding CheckGroupWideConflicts_def CheckGroupWideConflicts_loop_Inr h c by simp
qed

lemma CheckGroupWideConflicts_Inl:
  "CheckGroupWideConflicts cs = Inl e \<Longrightarrow>
     \<exists>k. e = Fatal (''host port '' @ k @ '' is not unique group-wide'')
        \<or> e = Fatal (''container port '' @ k @ '' is not unique group-wide'')"
  unfolding CheckGroupWideConflicts_def by (rule CheckGroupWideConflicts_loop_Inl)

lemma CheckGroupWideConflicts_same_host:
  assumes "ports a = [(h, c1, s)]" "ports b = [(h, c2, s)]"
  shows "CheckGroupWideConflicts [a, b]
         = Inl (Fatal (''host port '' @ str_int h @ s @ '' is not unique group-wide''))"
  using assms by (simp add: CheckGroupWideConflicts_def host_key_def)

text \<open>
  C2. For containers whose bindings carry the suffixes the loader produces (empty
  for TCP, \<^verbatim>\<open>/udp\<close> for UDP), the group-wide check passes exactly when the pairs
  (host port, suffix) of all bindings of the group are pairwise distinct and the
  pairs (container port, suffix) are too; when it fails, the error is the fatal
  host-port or container-port message. The keys the code compares are strings,
  decimal number followed by suffix; they are equal only for equal pairs.
\<close>

theorem CheckGroupWideConflicts_pairs:
  assumes "\<forall>c \<in> set cs. \<forall>b \<in> set (ports c). snd (snd b) \<in> {'''', ''/udp''}"
  shows "((CheckGroupWideConflicts cs = Inr ()) =
           (distinct (map (\<lambda>b. (fst b, snd (snd b))) (concat (map ports cs)))
            \<and> distinct (map (\<lambda>b. (fst (snd b), snd (snd b))) (concat (map ports cs)))))
         \<and> (\<forall>e. CheckGroupWideConflicts cs = Inl e \<longrightarrow>
               (\<exists>k. e = Fatal (''host port '' @ k @ '' is not unique group-wide'')
                  \<or> e = Fatal (''container port '' @ k @ '' is not unique group-wide'')))"
  using CheckGroupWideConflicts_Inr [OF assms] CheckGroupWideConflicts_Inl by blast

lemmas str_eval = str_int_def str_nat.simps digit_char_def

theorem CheckGroupWideConflicts_pairs_witness:
  "CheckGroupWideConflicts
     [(Container_init ''a'' ''img'')\<lparr>ports := [(80, 80, '''')]\<rparr>,
      (Container_init ''b'' ''img'')\<lparr>ports := [(80, 80, ''/udp'')]\<rparr>] = Inr ()
   \<and> CheckGroupWideConflicts
     [(Container_init ''a'' ''img'')\<lparr>ports := [(80, 80, '''')]\<rparr>,
      (Container_init ''b'' ''img'')\<lparr>ports := [(80, 81, '''')]\<rparr>]
     = Inl (Fatal ''host port 80 is not unique group-wide'')
   \<and> CheckGroupWideConflicts
     [(Container_init ''a'' ''img'')\<lparr>ports := [(80, 80, '''')]\<rparr>,
      (Container_init ''b'' ''img'')\<lparr>ports := [(81, 80, '''')]\<rparr>]
     \<noteq> Inr ()"
proof (intro conjI)
  show "CheckGroupWideConflicts
     [(Container_init ''a'' ''img'')\<lparr>ports := [(80, 80, '''')]\<rparr>,
      (Container_init ''b'' ''img'')\<lparr>ports := [(80, 80, ''/udp'')]\<rparr>] = Inr ()"
    using CheckGroupWideConflicts_pairs [of
      "[(Container_init ''a'' ''img'')\<lparr>ports := [(80, 80, '''')]\<rparr>,
        (Container_init ''b'' ''img'')\<lparr>ports := [(80, 80, ''/udp'')]\<rparr>]"]
    by simp
next
  have "CheckGroupWideConflicts
     [(Container_init ''a'' ''img'')\<lparr>ports := [(80, 80, '''')]\<rparr>,
      (Container_init ''b'' ''img'')\<lparr>ports := [(80, 81, '''')]\<rparr>]
     \<noteq> Inr ()"
    using CheckGroupWideConflicts_pairs [of
      "[(Container_init ''a'' ''img'')\<lparr>ports := [(80, 80, '''')]\<rparr>,
        (Container_init ''b'' ''img'')\<lparr>ports := [(80, 81, '''')]\<rparr>]"]
    by simp
  then show "CheckGroupWideConflicts
     [(Container_init ''a'' ''img'')\<lparr>ports := [(80, 80, '''')]\<rparr>,
      (Container_init ''b'' ''img'')\<lparr>ports := [(80, 81, '''')]\<rparr>]
     = Inl (Fatal ''host port 80 is not unique group-wide'')"
    by (simp add: CheckGroupWideConflicts_def host_key_def ctr_key_def str_eval)
next
  show "CheckGroupWideConflicts
     [(Container_init ''a'' ''img'')\<lparr>ports := [(80, 80, '''')]\<rparr>,
      (Container_init ''b'' ''img'')\<lparr>ports := [(81, 80, '''')]\<rparr>]
     \<noteq> Inr ()"
    using CheckGroupWideConflicts_pairs [of
      "[(Container_init ''a'' ''img'')\<lparr>ports := [(80, 80, '''')]\<rparr>,
        (Container_init ''b'' ''img'')\<lparr>ports := [(81, 80, '''')]\<rparr>]"]
    by simp
qed

section \<open>Containers pass and group resolution\<close>

lemma LoadUserContainers_build_Inr:
  assumes "LoadUserContainers_build n sp vols = Inr c"
  shows "name c = n" "hostname c = Some n" "network_from c = Some ''container:.net''"
    "s_image sp = Some (image_c c)"
    "command c = get_default (s_command sp) []" "working_dir c = s_workingDir sp"
    "LoadPorts (get_default (s_ports sp) []) n = Inr (ports c)"
    "LoadVolumeMounts (get_default (s_volumeMounts sp) []) vols n = Inr (mounts c)"
    "LoadEnvVars (get_default (s_env sp) []) n = Inr (env_vars c)"
  using assms
  by (auto simp: LoadUserContainers_build_def Container_init_def Let_def
      split: option.splits sum.splits)

lemma LoadUserContainers_name_Inr:
  "(LoadUserContainers_name i sp names = Inr n) =
     (s_name sp = Some n \<and> IsRfc1035Name n \<and> n \<notin> set names)"
  by (auto simp: LoadUserContainers_name_def split: option.splits)

lemma LoadUserContainers_loop_Inr:
  "LoadUserContainers_loop i specs vols acc names = Inr out \<Longrightarrow>
     \<exists>cs. out = acc @ cs
        \<and> list_all2 (\<lambda>sp c. s_name sp = Some (name c) \<and> IsRfc1035Name (name c)
                         \<and> LoadUserContainers_build (name c) sp vols = Inr c) specs cs
        \<and> distinct (map name cs) \<and> set (map name cs) \<inter> set names = {}"
proof (induction specs arbitrary: i acc names)
  case Nil
  then show ?case by simp
next
  case (Cons sp specs)
  from Cons.prems obtain n c where n: "LoadUserContainers_name i sp names = Inr n"
    and c: "LoadUserContainers_build n sp vols = Inr c"
    and rest: "LoadUserContainers_loop (Suc i) specs vols (acc @ [c]) (names @ [n]) = Inr out"
    by (auto split: sum.splits)
  from n have n': "s_name sp = Some n" "IsRfc1035Name n" "n \<notin> set names"
    by (simp_all add: LoadUserContainers_name_Inr)
  have nc: "name c = n" using c by (rule LoadUserContainers_build_Inr)
  from Cons.IH [OF rest] obtain cs where cs: "out = (acc @ [c]) @ cs"
      "list_all2 (\<lambda>sp c. s_name sp = Some (name c) \<and> IsRfc1035Name (name c)
                         \<and> LoadUserContainers_build (name c) sp vols = Inr c) specs cs"
      "distinct (map name cs)" "set (map name cs) \<inter> set (names @ [n]) = {}"
    by blast
  have "out = acc @ (c # cs)" using cs(1) by simp
  moreover have "list_all2 (\<lambda>sp c. s_name sp = Some (name c) \<and> IsRfc1035Name (name c)
                         \<and> LoadUserContainers_build (name c) sp vols = Inr c) (sp # specs) (c # cs)"
    using cs(2) n' nc c by simp
  moreover have "distinct (map name (c # cs))"
    using cs(3,4) nc by auto
  moreover have "set (map name (c # cs)) \<inter> set names = {}"
    using cs(4) nc n'(3) by auto
  ultimately show ?case by blast
qed

lemma LoadUserContainers_Inr:
  assumes "LoadUserContainers specs vols = Inr users"
  shows "list_all2 (\<lambda>sp c. s_name sp = Some (name c) \<and> IsRfc1035Name (name c)
                       \<and> LoadUserContainers_build (name c) sp vols = Inr c) specs users"
    and "distinct (map name users)"
  using LoadUserContainers_loop_Inr [of 0 specs vols "[]" "[]" users] assms
  by (auto simp: LoadUserContainers_def)

lemma LoadInfraContainers_loop_eq:
  "LoadInfraContainers_loop net seen us =
     (net\<lparr>ports := ports net @ concat (map ports us)\<rparr>, seen @ map (\<lambda>u. u\<lparr>ports := []\<rparr>) us)"
  by (induction us arbitrary: net seen) simp_all

lemma LoadInfraContainers_eq:
  "LoadInfraContainers us =
     ([\<lparr> name = ''.net'', image_c = ''busybox'',
         command = [''sh'', ''-c'', ''rm -f nap && mkfifo nap && exec cat nap''],
         hostname = None, working_dir = None, ports = concat (map ports us), mounts = [],
         env_vars = [], network_from = None \<rparr>],
      map (\<lambda>u. u\<lparr>ports := []\<rparr>) us)"
  by (simp add: LoadInfraContainers_def LoadInfraContainers_loop_eq Container_init_def)

lemma spec_binding_suffix:
  "spec_binding p = Some b \<Longrightarrow> snd (snd b) \<in> {'''', ''/udp''}"
  by (auto simp: spec_binding_def ProtocolString_def split: option.splits)

lemma LoadPorts_suffix:
  assumes "LoadPorts ps ctr = Inr out" "b \<in> set out"
  shows "snd (snd b) \<in> {'''', ''/udp''}"
proof -
  from assms(1) have m: "map Some out = map spec_binding ps" by (simp add: LoadPorts_Inr)
  from assms(2) have "Some b \<in> set (map Some out)" by simp
  with m have "Some b \<in> set (map spec_binding ps)" by simp
  then obtain p where "spec_binding p = Some b" by auto
  then show ?thesis by (rule spec_binding_suffix)
qed

lemma LoadUserContainers_suffix:
  assumes "LoadUserContainers specs vols = Inr users"
  shows "\<forall>c \<in> set users. \<forall>b \<in> set (ports c). snd (snd b) \<in> {'''', ''/udp''}"
proof (intro ballI)
  fix c b assume c: "c \<in> set users" and b: "b \<in> set (ports c)"
  from LoadUserContainers_Inr(1) [OF assms] c obtain sp where
    "LoadUserContainers_build (name c) sp vols = Inr c"
    by (auto simp: list_all2_conv_all_nth in_set_conv_nth)
  then have "LoadPorts (get_default (s_ports sp) []) (name c) = Inr (ports c)"
    by (rule LoadUserContainers_build_Inr)
  from LoadPorts_suffix [OF this b] show "snd (snd b) \<in> {'''', ''/udp''}" .
qed

lemma main_group_Inr:
  assumes "main_group cfg = Inr r"
  shows "\<exists>vols users.
           LoadVolumes (get_default (cfg_volumes cfg) []) = Inr vols
         \<and> LoadUserContainers (get_default (cfg_containers cfg) []) vols = Inr users
         \<and> CheckGroupWideConflicts users = Inr ()
         \<and> r = (if users \<noteq> [] then
                   Some (fst (LoadInfraContainers users) @ snd (LoadInfraContainers users))
                 else None)"
proof (cases "CheckVersion cfg")
  case (Inl e)
  with assms show ?thesis by (simp add: main_group_def)
next
  case v: (Inr u)
  show ?thesis
  proof (cases "LoadVolumes (get_default (cfg_volumes cfg) [])")
    case (Inl e)
    with assms v show ?thesis by (simp add: main_group_def)
  next
    case vols: (Inr vols)
    show ?thesis
    proof (cases "LoadUserContainers (get_default (cfg_containers cfg) []) vols")
      case (Inl e)
      with assms v vols show ?thesis by (simp add: main_group_def)
    next
      case users: (Inr users)
      show ?thesis
      proof (cases "CheckGroupWideConflicts users")
        case (Inl e)
        with assms v vols users show ?thesis by (simp add: main_group_def)
      next
        case chk: (Inr w)
        from assms v vols users chk
        have "r = (if users \<noteq> [] then
                   Some (fst (LoadInfraContainers users) @ snd (LoadInfraContainers users))
                 else None)"
          by (simp add: main_group_def split_beta split: if_splits)
        with vols users chk show ?thesis by simp
      qed
    qed
  qed
qed

lemmas load_eval = main_group_def CheckVersion_def SUPPORTED_CONFIG_VERSIONS_def get_default_def
  LoadVolumes_def LoadUserContainers_def LoadUserContainers_name_def
  LoadUserContainers_build_def check_working_dir_def LoadPorts_def LoadVolumeMounts_def
  LoadEnvVars_def Container_init_def Let_def CheckGroupWideConflicts_def
  LoadInfraContainers_def



lemma LoadUserContainers_names:
  assumes "LoadUserContainers specs vols = Inr users"
  shows "map s_name specs = map (Some \<circ> name) users"
    and "\<forall>u \<in> set users. IsRfc1035Name (name u)"
proof -
  note built = LoadUserContainers_Inr(1) [OF assms]
  then have len: "length specs = length users" by (rule list_all2_lengthD)
  from built have nth: "\<And>i. i < length specs \<Longrightarrow>
      s_name (specs ! i) = Some (name (users ! i)) \<and> IsRfc1035Name (name (users ! i))"
    by (simp add: list_all2_conv_all_nth)
  show "map s_name specs = map (Some \<circ> name) users"
    using len nth by (simp add: list_eq_iff_nth_eq)
  show "\<forall>u \<in> set users. IsRfc1035Name (name u)"
    using len nth by (auto simp: in_set_conv_nth)
qed

lemma dot_net_invalid: "\<not> IsRfc1035Name ''.net''"
  by (simp add: rfc_eval)

lemma LoadUserContainers_distinct_specs:
  assumes "LoadUserContainers specs vols = Inr users"
  shows "distinct (map s_name specs)"
proof -
  have "distinct (map Some (map name users))"
    using LoadUserContainers_Inr(2) [OF assms] by (subst distinct_map) (simp add: inj_on_def)
  then show ?thesis
    using LoadUserContainers_names(1) [OF assms] by simp
qed

text \<open>
  C5. In a group that the main flow resolves, the names are pairwise distinct: the
  first is \<^verbatim>\<open>.net\<close>, the others are the user names, each accepted by the name
  validator, which rejects \<^verbatim>\<open>.net\<close>. A successful containers pass implies that the
  names of the entries are pairwise distinct, and the name check turns a name seen
  before into the fatal error "name is not unique".
\<close>

theorem container_names_unique:
  "(main_group cfg = Inr (Some grp) \<longrightarrow>
      distinct (map name grp)
    \<and> (\<exists>vols users.
          LoadUserContainers (get_default (cfg_containers cfg) []) vols = Inr users
        \<and> map name grp = ''.net'' # map name users
        \<and> (\<forall>u \<in> set users. IsRfc1035Name (name u))))
   \<and> \<not> IsRfc1035Name ''.net''
   \<and> (LoadUserContainers specs vols' = Inr users' \<longrightarrow>
        distinct (map s_name specs) \<and> map s_name specs = map (Some \<circ> name) users')
   \<and> (s_name sp = Some n \<and> IsRfc1035Name n \<and> n \<in> set names \<longrightarrow>
        LoadUserContainers_name i sp names
        = Inl (Fatal (''containers['' @ str_nat i @ ''].name is not unique: '' @ n)))"
proof (intro conjI impI)
  assume run: "main_group cfg = Inr (Some grp)"
  from main_group_Inr [OF run] obtain vols users where
      users: "LoadUserContainers (get_default (cfg_containers cfg) []) vols = Inr users"
    and r: "Some grp = (if users \<noteq> [] then
                   Some (fst (LoadInfraContainers users) @ snd (LoadInfraContainers users))
                 else None)"
    by blast
  from r have ne: "users \<noteq> []" by (auto split: if_splits)
  with r have g: "map name grp = ''.net'' # map name users"
    by (simp add: LoadInfraContainers_eq comp_def)
  note valid = LoadUserContainers_names(2) [OF users]
  have "''.net'' \<notin> set (map name users)"
    using valid dot_net_invalid by auto
  with LoadUserContainers_Inr(2) [OF users] g show "distinct (map name grp)" by simp
  show "\<exists>vols users.
          LoadUserContainers (get_default (cfg_containers cfg) []) vols = Inr users
        \<and> map name grp = ''.net'' # map name users
        \<and> (\<forall>u \<in> set users. IsRfc1035Name (name u))"
    using users g valid by (intro exI [of _ vols] exI [of _ users] conjI)
next
  show "\<not> IsRfc1035Name ''.net''" by (rule dot_net_invalid)
next
  assume "LoadUserContainers specs vols' = Inr users'"
  then show "distinct (map s_name specs)" by (rule LoadUserContainers_distinct_specs)
next
  assume "LoadUserContainers specs vols' = Inr users'"
  then show "map s_name specs = map (Some \<circ> name) users'" by (rule LoadUserContainers_names)
next
  assume "s_name sp = Some n \<and> IsRfc1035Name n \<and> n \<in> set names"
  then show "LoadUserContainers_name i sp names
        = Inl (Fatal (''containers['' @ str_nat i @ ''].name is not unique: '' @ n))"
    by (simp add: LoadUserContainers_name_def)
qed

theorem container_names_unique_witness:
  "main_group \<lparr> cfg_version = Some ''v1beta1'', cfg_volumes = None,
      cfg_containers = Some
        [\<lparr> s_name = Some ''a'', s_image = Some ''foo/bar'', s_command = None,
           s_workingDir = None, s_ports = None, s_volumeMounts = None, s_env = None \<rparr>,
         \<lparr> s_name = Some ''net'', s_image = Some ''foo/bar'', s_command = None,
           s_workingDir = None, s_ports = None, s_volumeMounts = None, s_env = None \<rparr>] \<rparr>
   = Inr (Some
       [\<lparr> name = ''.net'', image_c = ''busybox'',
          command = [''sh'', ''-c'', ''rm -f nap && mkfifo nap && exec cat nap''],
          hostname = None, working_dir = None, ports = [], mounts = [], env_vars = [],
          network_from = None \<rparr>,
        \<lparr> name = ''a'', image_c = ''foo/bar'', command = [], hostname = Some ''a'',
          working_dir = None, ports = [], mounts = [], env_vars = [],
          network_from = Some ''container:.net'' \<rparr>,
        \<lparr> name = ''net'', image_c = ''foo/bar'', command = [], hostname = Some ''net'',
          working_dir = None, ports = [], mounts = [], env_vars = [],
          network_from = Some ''container:.net'' \<rparr>])
   \<and> distinct [''.net'', ''a'', ''net'']
   \<and> LoadUserContainers_name 1
         \<lparr> s_name = Some ''a'', s_image = Some ''foo/bar'', s_command = None,
           s_workingDir = None, s_ports = None, s_volumeMounts = None, s_env = None \<rparr> [''a'']
       = Inl (Fatal ''containers[1].name is not unique: a'')"
proof -
  let ?cfg = "\<lparr> cfg_version = Some ''v1beta1'', cfg_volumes = None,
      cfg_containers = Some
        [\<lparr> s_name = Some ''a'', s_image = Some ''foo/bar'', s_command = None,
           s_workingDir = None, s_ports = None, s_volumeMounts = None, s_env = None \<rparr>,
         \<lparr> s_name = Some ''net'', s_image = Some ''foo/bar'', s_command = None,
           s_workingDir = None, s_ports = None, s_volumeMounts = None, s_env = None \<rparr>] \<rparr>"
  let ?grp = "[\<lparr> name = ''.net'', image_c = ''busybox'',
          command = [''sh'', ''-c'', ''rm -f nap && mkfifo nap && exec cat nap''],
          hostname = None, working_dir = None, ports = [], mounts = [], env_vars = [],
          network_from = None \<rparr>,
        \<lparr> name = ''a'', image_c = ''foo/bar'', command = [], hostname = Some ''a'',
          working_dir = None, ports = [], mounts = [], env_vars = [],
          network_from = Some ''container:.net'' \<rparr>,
        \<lparr> name = ''net'', image_c = ''foo/bar'', command = [], hostname = Some ''net'',
          working_dir = None, ports = [], mounts = [], env_vars = [],
          network_from = Some ''container:.net'' \<rparr>]"
  have run: "main_group ?cfg = Inr (Some ?grp)"
    by (simp add: load_eval rfc_eval)
  have a: "IsRfc1035Name ''a''" by (simp add: rfc_eval)
  note inst = container_names_unique [of ?cfg ?grp _ _ _
      "\<lparr> s_name = Some ''a'', s_image = Some ''foo/bar'', s_command = None,
           s_workingDir = None, s_ports = None, s_volumeMounts = None, s_env = None \<rparr>"
      "''a''" "[''a'']" 1]
  from inst run have "distinct (map name ?grp)" by blast
  then have d: "distinct [''.net'', ''a'', ''net'']" by simp
  from inst a have "LoadUserContainers_name 1
         \<lparr> s_name = Some ''a'', s_image = Some ''foo/bar'', s_command = None,
           s_workingDir = None, s_ports = None, s_volumeMounts = None, s_env = None \<rparr> [''a'']
       = Inl (Fatal (''containers['' @ str_nat 1 @ ''].name is not unique: '' @ ''a''))"
    by simp
  then have n: "LoadUserContainers_name 1
         \<lparr> s_name = Some ''a'', s_image = Some ''foo/bar'', s_command = None,
           s_workingDir = None, s_ports = None, s_volumeMounts = None, s_env = None \<rparr> [''a'']
       = Inl (Fatal ''containers[1].name is not unique: a'')"
    by (simp add: str_nat.simps [of 1] str_nat.simps [of "Suc 0"] digit_char_def)
  from run d n show ?thesis by blast
qed






section \<open>What the name validator accepts\<close>

text \<open>
  The matcher decides the language of the expression; for the name pattern that
  language is the set of RFC 1035 labels. With the final \<^verbatim>\<open>$\<close> of the pattern the
  validator accepts the labels and the labels followed by one newline, and nothing
  else.
\<close>

lemma nullable_iff: "nullable r = ([] \<in> lang r)"
  by (induction r) (auto intro: star_nil)

lemma star_Cons_D:
  "x \<in> star A \<Longrightarrow> x = c # w \<Longrightarrow> \<exists>u v. w = u @ v \<and> c # u \<in> A \<and> v \<in> star A"
proof (induction rule: star.induct)
  case star_nil
  then show ?case by simp
next
  case (star_app u v)
  show ?case
  proof (cases u)
    case Nil
    with star_app show ?thesis by simp
  next
    case (Cons a u')
    with star_app.prems have "a = c" "w = u' @ v" by simp_all
    with Cons star_app.hyps show ?thesis by blast
  qed
qed

lemma star_Cons:
  "(c # w \<in> star A) = (\<exists>u v. w = u @ v \<and> c # u \<in> A \<and> v \<in> star A)"
proof
  assume "c # w \<in> star A"
  then show "\<exists>u v. w = u @ v \<and> c # u \<in> A \<and> v \<in> star A"
    by (rule star_Cons_D) simp
next
  assume "\<exists>u v. w = u @ v \<and> c # u \<in> A \<and> v \<in> star A"
  then obtain u v where "w = u @ v" "c # u \<in> A" "v \<in> star A" by blast
  then have "(c # u) @ v \<in> star A" by (intro star_app)
  with \<open>w = u @ v\<close> show "c # w \<in> star A" by simp
qed

lemma deriv_lang: "(w \<in> lang (deriv c r)) = (c # w \<in> lang r)"
proof (induction r arbitrary: w)
  case Null
  show ?case by simp
next
  case Eps
  show ?case by simp
next
  case (Cls rs)
  show ?case by auto
next
  case (Alt r s)
  then show ?case by simp
next
  case (Seq r s)
  have "(c # w \<in> lang (Seq r s)) =
      ((\<exists>u v. w = u @ v \<and> c # u \<in> lang r \<and> v \<in> lang s) \<or> ([] \<in> lang r \<and> c # w \<in> lang s))"
  proof
    assume "c # w \<in> lang (Seq r s)"
    then obtain u v where uv: "c # w = u @ v" "u \<in> lang r" "v \<in> lang s" by auto
    show "(\<exists>u v. w = u @ v \<and> c # u \<in> lang r \<and> v \<in> lang s) \<or> ([] \<in> lang r \<and> c # w \<in> lang s)"
    proof (cases u)
      case Nil
      with uv show ?thesis by simp
    next
      case (Cons a u')
      with uv have "w = u' @ v" "c # u' \<in> lang r" by simp_all
      with uv(3) show ?thesis by blast
    qed
  next
    assume "(\<exists>u v. w = u @ v \<and> c # u \<in> lang r \<and> v \<in> lang s) \<or> ([] \<in> lang r \<and> c # w \<in> lang s)"
    then show "c # w \<in> lang (Seq r s)"
    proof
      assume "\<exists>u v. w = u @ v \<and> c # u \<in> lang r \<and> v \<in> lang s"
      then obtain u v where "w = u @ v" "c # u \<in> lang r" "v \<in> lang s" by blast
      then have "c # w = (c # u) @ v \<and> c # u \<in> lang r \<and> v \<in> lang s" by simp
      then show ?thesis by (simp del: append_Cons) blast
    next
      assume "[] \<in> lang r \<and> c # w \<in> lang s"
      then have "c # w = [] @ (c # w) \<and> [] \<in> lang r \<and> c # w \<in> lang s" by simp
      then show ?thesis by (simp del: append_Nil) blast
    qed
  qed
  moreover have "(w \<in> lang (deriv c (Seq r s))) =
      ((\<exists>u v. w = u @ v \<and> c # u \<in> lang r \<and> v \<in> lang s) \<or> ([] \<in> lang r \<and> c # w \<in> lang s))"
    using Seq.IH by (auto simp: nullable_iff)
  ultimately show ?case by simp
next
  case (Rep r)
  have "(w \<in> lang (deriv c (Rep r))) = (\<exists>u v. w = u @ v \<and> c # u \<in> lang r \<and> v \<in> star (lang r))"
    using Rep.IH by auto
  then show ?case by (simp add: star_Cons)
qed

lemma accepts_iff: "accepts r s = (s \<in> lang r)"
  by (induction s arbitrary: r) (simp_all add: nullable_iff deriv_lang)

lemma in_cls_lower: "in_cls lower c = is_lower c"
  by (simp add: in_cls_def in_range_def lower_def is_lower_def)

lemma in_cls_lower_digit: "in_cls (lower @ digit) c = (is_lower c \<or> is_digit c)"
  by (simp add: in_cls_def in_range_def lower_def digit_def is_lower_def is_digit_def)

lemma hyphen_code: "((45::nat) \<le> of_char c \<and> of_char c \<le> (45::nat)) = (c = CHR ''-'')"
proof -
  have "((of_char c :: nat) = of_char CHR ''-'') = (c = CHR ''-'')" by (rule of_char_eq_iff)
  then show ?thesis by auto
qed

lemma in_cls_hyphen_lower_digit:
  "in_cls (only CHR ''-'' @ lower @ digit) c = (c = CHR ''-'' \<or> is_lower c \<or> is_digit c)"
  using hyphen_code [of c]
  by (simp add: in_cls_def in_range_def lower_def digit_def only_def is_lower_def is_digit_def)

lemma lower_not_hyphen: "is_lower c \<Longrightarrow> c \<noteq> CHR ''-''"
  by (auto simp: is_lower_def)

lemma digit_not_hyphen: "is_digit c \<Longrightarrow> c \<noteq> CHR ''-''"
  by (auto simp: is_digit_def)

lemma star_cls: "(w \<in> star {[c] | c. P c}) = (\<forall>c \<in> set w. P c)"
proof
  assume "w \<in> star {[c] | c. P c}"
  then show "\<forall>c \<in> set w. P c"
    by (induction rule: star.induct) auto
next
  assume "\<forall>c \<in> set w. P c"
  then show "w \<in> star {[c] | c. P c}"
  proof (induction w)
    case Nil
    show ?case by (rule star_nil)
  next
    case (Cons a w)
    then have "[a] \<in> {[c] | c. P c}" "w \<in> star {[c] | c. P c}" by auto
    then have "[a] @ w \<in> star {[c] | c. P c}" by (rule star_app)
    then show ?case by simp
  qed
qed

lemma star_blocks:
  assumes sub: "\<And>c. Q c \<Longrightarrow> P c"
  shows "(w \<in> star {u @ [b] | u b. (\<forall>c \<in> set u. P c) \<and> Q b})
         = ((\<forall>c \<in> set w. P c) \<and> (w = [] \<or> Q (last w)))"
proof
  assume "w \<in> star {u @ [b] | u b. (\<forall>c \<in> set u. P c) \<and> Q b}"
  then show "(\<forall>c \<in> set w. P c) \<and> (w = [] \<or> Q (last w))"
  proof (induction rule: star.induct)
    case star_nil
    show ?case by simp
  next
    case (star_app x v)
    from star_app.hyps(1) obtain u b where x: "x = u @ [b]" "\<forall>c \<in> set u. P c" "Q b"
      by blast
    from x sub have "\<forall>c \<in> set x. P c" by auto
    moreover have "Q (last (x @ v))"
    proof (cases "v = []")
      case True
      with x show ?thesis by simp
    next
      case False
      with star_app.IH show ?thesis by simp
    qed
    ultimately show ?case using star_app.IH by auto
  qed
next
  assume r: "(\<forall>c \<in> set w. P c) \<and> (w = [] \<or> Q (last w))"
  show "w \<in> star {u @ [b] | u b. (\<forall>c \<in> set u. P c) \<and> Q b}"
  proof (cases "w = []")
    case True
    then show ?thesis by (simp add: star_nil)
  next
    case False
    with r have "\<forall>c \<in> set (butlast w). P c" "Q (last w)"
      by (auto dest: in_set_butlastD)
    then have "butlast w @ [last w] \<in> {u @ [b] | u b. (\<forall>c \<in> set u. P c) \<and> Q b}"
      by blast
    then have "(butlast w @ [last w]) @ [] \<in> star {u @ [b] | u b. (\<forall>c \<in> set u. P c) \<and> Q b}"
      by (intro star_app star_nil)
    with False show ?thesis by simp
  qed
qed

lemma lang_Seq_Cls:
  "(s \<in> lang (Seq (Cls rs) r)) = (\<exists>c w. s = c # w \<and> in_cls rs c \<and> w \<in> lang r)"
proof
  assume "s \<in> lang (Seq (Cls rs) r)"
  then obtain u v where "s = u @ v" "u \<in> lang (Cls rs)" "v \<in> lang r" by auto
  then obtain c where "s = c # v" "in_cls rs c" "v \<in> lang r" by auto
  then show "\<exists>c w. s = c # w \<and> in_cls rs c \<and> w \<in> lang r" by blast
next
  assume "\<exists>c w. s = c # w \<and> in_cls rs c \<and> w \<in> lang r"
  then obtain c w where "s = [c] @ w" "[c] \<in> lang (Cls rs)" "w \<in> lang r" by auto
  then have "\<exists>u v. s = u @ v \<and> u \<in> lang (Cls rs) \<and> v \<in> lang r" by blast
  then show "s \<in> lang (Seq (Cls rs) r)" by simp
qed

lemma lang_Seq_Rep_Cls:
  "(s \<in> lang (Seq (Rep (Cls rs)) (Cls rs'))) =
     (\<exists>u b. s = u @ [b] \<and> (\<forall>c \<in> set u. in_cls rs c) \<and> in_cls rs' b)"
proof
  assume "s \<in> lang (Seq (Rep (Cls rs)) (Cls rs'))"
  then obtain u v where uv: "s = u @ v" "u \<in> star {[c] | c. in_cls rs c}" "v \<in> lang (Cls rs')"
    by auto
  from uv(3) obtain b where b: "v = [b]" "in_cls rs' b" by auto
  from uv(2) have "\<forall>c \<in> set u. in_cls rs c" by (simp add: star_cls)
  with uv(1) b show "\<exists>u b. s = u @ [b] \<and> (\<forall>c \<in> set u. in_cls rs c) \<and> in_cls rs' b"
    by blast
next
  assume "\<exists>u b. s = u @ [b] \<and> (\<forall>c \<in> set u. in_cls rs c) \<and> in_cls rs' b"
  then obtain u b where ub: "s = u @ [b]" "\<forall>c \<in> set u. in_cls rs c" "in_cls rs' b" by blast
  from ub(2) have "u \<in> lang (Rep (Cls rs))" by (simp add: star_cls)
  moreover from ub(3) have "[b] \<in> lang (Cls rs')" by simp
  ultimately have "\<exists>x y. s = x @ y \<and> x \<in> lang (Rep (Cls rs)) \<and> y \<in> lang (Cls rs')"
    using ub(1) by blast
  then show "s \<in> lang (Seq (Rep (Cls rs)) (Cls rs'))" by simp
qed

lemma lang_block:
  "lang (Seq (Rep (Cls (only CHR ''-'' @ lower @ digit))) (Cls (lower @ digit)))
   = {u @ [b] | u b. (\<forall>c \<in> set u. c = CHR ''-'' \<or> is_lower c \<or> is_digit c)
                     \<and> (is_lower b \<or> is_digit b)}"
proof (rule set_eqI)
  fix s
  have "(s \<in> lang (Seq (Rep (Cls (only CHR ''-'' @ lower @ digit))) (Cls (lower @ digit))))
      = (\<exists>u b. s = u @ [b] \<and> (\<forall>c \<in> set u. c = CHR ''-'' \<or> is_lower c \<or> is_digit c)
                     \<and> (is_lower b \<or> is_digit b))"
    unfolding lang_Seq_Rep_Cls in_cls_hyphen_lower_digit in_cls_lower_digit ..
  then show "(s \<in> lang (Seq (Rep (Cls (only CHR ''-'' @ lower @ digit))) (Cls (lower @ digit))))
      = (s \<in> {u @ [b] | u b. (\<forall>c \<in> set u. c = CHR ''-'' \<or> is_lower c \<or> is_digit c)
                     \<and> (is_lower b \<or> is_digit b)})"
    by simp
qed

lemma lang_blocks_star:
  "(w \<in> lang (Rep (Seq (Rep (Cls (only CHR ''-'' @ lower @ digit))) (Cls (lower @ digit)))))
   = ((\<forall>c \<in> set w. c = CHR ''-'' \<or> is_lower c \<or> is_digit c)
      \<and> (w = [] \<or> is_lower (last w) \<or> is_digit (last w)))"
proof -
  have sub: "\<And>c. is_lower c \<or> is_digit c \<Longrightarrow> c = CHR ''-'' \<or> is_lower c \<or> is_digit c"
    by blast
  note sb = star_blocks [where Q = "\<lambda>b. is_lower b \<or> is_digit b"
      and P = "\<lambda>c. c = CHR ''-'' \<or> is_lower c \<or> is_digit c" and w = w, OF sub]
  have "lang (Rep (Seq (Rep (Cls (only CHR ''-'' @ lower @ digit))) (Cls (lower @ digit))))
      = star {u @ [b] | u b. (\<forall>c \<in> set u. c = CHR ''-'' \<or> is_lower c \<or> is_digit c)
                     \<and> (is_lower b \<or> is_digit b)}"
    by (simp only: lang.simps(6) lang_block)
  with sb show ?thesis by simp
qed

lemma rfc_label_Cons:
  "rfc_label (c # w) =
     (is_lower c \<and> (\<forall>x \<in> set w. x = CHR ''-'' \<or> is_lower x \<or> is_digit x)
      \<and> (w = [] \<or> is_lower (last w) \<or> is_digit (last w)))"
proof (cases "w = []")
  case True
  have "is_lower c \<Longrightarrow> c \<noteq> CHR ''-''" by (rule lower_not_hyphen)
  with True show ?thesis by (auto simp: rfc_label_def)
next
  case False
  then have mem: "last w \<in> set w" by simp
  have l: "last (c # w) = last w" using False by simp
  have "(\<forall>x \<in> set w. x = CHR ''-'' \<or> is_lower x \<or> is_digit x) \<Longrightarrow>
      (last w \<noteq> CHR ''-'') = (is_lower (last w) \<or> is_digit (last w))"
    using mem lower_not_hyphen [of "last w"] digit_not_hyphen [of "last w"] by blast
  then show ?thesis
    unfolding rfc_label_def l using False by auto
qed

lemma accepts_RFC: "accepts RE_RFC1035_NAME s = rfc_label s"
proof (cases s)
  case Nil
  have "\<not> accepts RE_RFC1035_NAME []" by (simp add: RE_RFC1035_NAME_def)
  with Nil show ?thesis by (simp add: rfc_label_def)
next
  case (Cons c w)
  have "accepts RE_RFC1035_NAME (c # w) =
      (\<exists>c' w'. c # w = c' # w' \<and> in_cls lower c'
         \<and> w' \<in> lang (Rep (Seq (Rep (Cls (only CHR ''-'' @ lower @ digit)))
                                (Cls (lower @ digit)))))"
    unfolding accepts_iff RE_RFC1035_NAME_def by (rule lang_Seq_Cls)
  also have "\<dots> = (in_cls lower c
         \<and> w \<in> lang (Rep (Seq (Rep (Cls (only CHR ''-'' @ lower @ digit)))
                              (Cls (lower @ digit)))))"
    by blast
  also have "\<dots> = rfc_label (c # w)"
    unfolding lang_blocks_star in_cls_lower rfc_label_Cons ..
  finally show ?thesis using Cons by simp
qed

lemma IsRfc1035Name_iff:
  "IsRfc1035Name s = (rfc_label s \<or> (\<exists>t. s = t @ [newline] \<and> rfc_label t))"
proof -
  have "(s \<noteq> [] \<and> last s = newline \<and> rfc_label (butlast s))
      = (\<exists>t. s = t @ [newline] \<and> rfc_label t)"
  proof
    assume a: "s \<noteq> [] \<and> last s = newline \<and> rfc_label (butlast s)"
    then have "s \<noteq> []" by simp
    then have "butlast s @ [last s] = s" by (rule append_butlast_last_id)
    moreover from a have "last s = newline" by simp
    ultimately have "s = butlast s @ [newline]" by metis
    with a show "\<exists>t. s = t @ [newline] \<and> rfc_label t" by blast
  next
    assume "\<exists>t. s = t @ [newline] \<and> rfc_label t"
    then obtain t where "s = t @ [newline]" "rfc_label t" by blast
    then show "s \<noteq> [] \<and> last s = newline \<and> rfc_label (butlast s)" by simp
  qed
  then show ?thesis
    unfolding IsRfc1035Name_def match_dollar_def accepts_RFC by simp
qed

section \<open>The host port check within one container\<close>

lemma port_entry_ok_binding:
  assumes "port_entry_ok p"
  obtains c where "p_containerPort p = Some c" "IsValidPort c"
    "IsValidPort (get_default (p_hostPort p) c)"
    "IsValidProtocol (get_default (p_protocol p) ''TCP'')"
    "spec_binding p = Some (get_default (p_hostPort p) c, c,
        ProtocolString (get_default (p_protocol p) ''TCP''))"
  using assms by (auto simp: port_entry_ok_def spec_binding_def)

lemma LoadPorts_name_ok:
  assumes "port_entry_ok p" "\<forall>n. p_name p = Some n \<longrightarrow> n \<notin> set names"
  shows "LoadPorts_name ctr i p names
         = Inr (get_default (p_name p) (str_nat i),
                names @ (case p_name p of None \<Rightarrow> [] | Some n \<Rightarrow> [n]))"
  using assms
  by (auto simp: LoadPorts_name_def port_entry_ok_def get_default_def split: option.splits)

lemma LoadPorts_binding_ok:
  assumes "port_entry_ok p" "spec_binding p = Some b" "fst b \<notin> set hosts"
  shows "LoadPorts_binding ctr pn p hosts = Inr b"
proof -
  from assms(1) obtain c where c: "p_containerPort p = Some c" "IsValidPort c"
      "IsValidPort (get_default (p_hostPort p) c)"
      "IsValidProtocol (get_default (p_protocol p) ''TCP'')"
      "spec_binding p = Some (get_default (p_hostPort p) c, c,
        ProtocolString (get_default (p_protocol p) ''TCP''))"
    by (rule port_entry_ok_binding)
  with assms(2) have b: "b = (get_default (p_hostPort p) c, c,
        ProtocolString (get_default (p_protocol p) ''TCP''))"
    by simp
  with assms(3) have "get_default (p_hostPort p) c \<notin> set hosts" by simp
  with c b show ?thesis unfolding LoadPorts_binding_Inr by blast
qed

lemma LoadPorts_binding_dup:
  assumes "port_entry_ok p" "map_option fst (spec_binding p) = Some h" "h \<in> set hosts"
  shows "LoadPorts_binding ctr pn p hosts
         = Inl (Fatal (''containers['' @ ctr @ ''].ports['' @ pn
                       @ ''].hostPort is not unique: '' @ str_int h))"
proof -
  from assms(1) obtain c where c: "p_containerPort p = Some c" "IsValidPort c"
      "IsValidPort (get_default (p_hostPort p) c)"
      "spec_binding p = Some (get_default (p_hostPort p) c, c,
        ProtocolString (get_default (p_protocol p) ''TCP''))"
    by (rule port_entry_ok_binding)
  with assms(2) have h: "get_default (p_hostPort p) c = h" by simp
  with c assms(3) show ?thesis
    by (simp add: LoadPorts_binding_def Let_def)
qed

lemma LoadPorts_loop_dup:
  assumes "k < length ps"
    and "\<forall>p \<in> set (take (Suc k) ps). port_entry_ok p"
    and "distinct (List.map_filter p_name (take (Suc k) ps))"
    and "set (List.map_filter p_name (take (Suc k) ps)) \<inter> set names = {}"
    and "distinct (map (map_option fst \<circ> spec_binding) (take k ps))"
    and "set (map (map_option fst \<circ> spec_binding) (take k ps)) \<inter> Some ` set hosts = {}"
    and "map_option fst (spec_binding (ps ! k)) = Some h"
    and "h \<in> set hosts \<or> Some h \<in> set (map (map_option fst \<circ> spec_binding) (take k ps))"
  shows "LoadPorts_loop ctr i0 ps acc names hosts
         = Inl (Fatal (''containers['' @ ctr @ ''].ports[''
                       @ get_default (p_name (ps ! k)) (str_nat (i0 + k))
                       @ ''].hostPort is not unique: '' @ str_int h))"
  using assms
proof (induction ps arbitrary: k i0 acc names hosts)
  case Nil
  then show ?case by simp
next
  case (Cons p ps)
  from Cons.prems(2) have okp: "port_entry_ok p" by simp
  from Cons.prems(4) have fresh: "\<forall>n. p_name p = Some n \<longrightarrow> n \<notin> set names"
    by (auto simp: map_filter_Cons_name)
  note nm = LoadPorts_name_ok [OF okp fresh, of ctr i0]
  show ?case
  proof (cases k)
    case 0
    with Cons.prems(7) have h: "map_option fst (spec_binding p) = Some h" by simp
    from Cons.prems(8) 0 have "h \<in> set hosts" by simp
    note bd = LoadPorts_binding_dup [OF okp h this, of ctr "get_default (p_name p) (str_nat i0)"]
    show ?thesis
      using 0 by (simp add: nm bd)
  next
    case (Suc k')
    from okp obtain b where b: "spec_binding p = Some b"
      by (auto elim: port_entry_ok_binding)
    have tk: "take k (p # ps) = p # take k' ps" using Suc by simp
    have tsk: "take (Suc k) (p # ps) = p # take (Suc k') ps" using Suc by simp
    have mk: "map (map_option fst \<circ> spec_binding) (take k (p # ps))
        = Some (fst b) # map (map_option fst \<circ> spec_binding) (take k' ps)"
      unfolding tk using b by simp
    have jh: "set (Some (fst b) # map (map_option fst \<circ> spec_binding) (take k' ps))
        \<inter> Some ` set hosts = {}"
      using Cons.prems(6) unfolding mk .
    then have "Some (fst b) \<notin> Some ` set hosts" by auto
    then have nb: "fst b \<notin> set hosts" by auto
    note bo = LoadPorts_binding_ok [OF okp b nb, of ctr "get_default (p_name p) (str_nat i0)"]
    define names' where "names' = names @ (case p_name p of None \<Rightarrow> [] | Some n \<Rightarrow> [n])"
    have step: "LoadPorts_loop ctr i0 (p # ps) acc names hosts
        = LoadPorts_loop ctr (Suc i0) ps (acc @ [b]) names' (hosts @ [fst b])"
      by (simp add: nm bo names'_def)
    have 1: "k' < length ps" using Cons.prems(1) Suc by simp
    have 2: "\<forall>p \<in> set (take (Suc k') ps). port_entry_ok p"
      using Cons.prems(2) unfolding tsk by simp
    have dn: "distinct (List.map_filter p_name (p # take (Suc k') ps))"
      using Cons.prems(3) unfolding tsk .
    have dj: "set (List.map_filter p_name (p # take (Suc k') ps)) \<inter> set names = {}"
      using Cons.prems(4) unfolding tsk .
    have 3: "distinct (List.map_filter p_name (take (Suc k') ps))"
      using dn by (auto simp: map_filter_Cons_name split: option.splits)
    have 4: "set (List.map_filter p_name (take (Suc k') ps)) \<inter> set names' = {}"
      using dn dj unfolding names'_def
      by (auto simp: map_filter_Cons_name split: option.splits)
    have dh: "distinct (Some (fst b) # map (map_option fst \<circ> spec_binding) (take k' ps))"
      using Cons.prems(5) unfolding mk .
    have 5: "distinct (map (map_option fst \<circ> spec_binding) (take k' ps))"
      using dh by simp
    have 6: "set (map (map_option fst \<circ> spec_binding) (take k' ps))
        \<inter> Some ` set (hosts @ [fst b]) = {}"
      using dh jh by auto
    have 7: "map_option fst (spec_binding (ps ! k')) = Some h"
      using Cons.prems(7) Suc by simp
    have "h \<in> set hosts
        \<or> Some h \<in> set (Some (fst b) # map (map_option fst \<circ> spec_binding) (take k' ps))"
      using Cons.prems(8) unfolding mk .
    then have 8: "h \<in> set (hosts @ [fst b])
        \<or> Some h \<in> set (map (map_option fst \<circ> spec_binding) (take k' ps))"
      by auto
    have "LoadPorts_loop ctr (Suc i0) ps (acc @ [b]) names' (hosts @ [fst b])
         = Inl (Fatal (''containers['' @ ctr @ ''].ports[''
                       @ get_default (p_name (ps ! k')) (str_nat (Suc i0 + k'))
                       @ ''].hostPort is not unique: '' @ str_int h))"
      by (rule Cons.IH [OF 1 2 3 4 5 6 7 8])
    then show ?thesis
      unfolding step using Suc by simp
  qed
qed

lemma distinct_map_filter_take:
  assumes "distinct (List.map_filter f xs)"
  shows "distinct (List.map_filter f (take n xs))"
proof -
  have "List.map_filter f xs
      = List.map_filter f (take n xs) @ List.map_filter f (drop n xs)"
    by (simp add: List.map_filter_def flip: map_append filter_append)
  with assms show ?thesis by simp
qed

lemma host_in_take:
  assumes "k' < k" "k \<le> length ps"
  shows "(map_option fst \<circ> spec_binding) (ps ! k')
         \<in> set (map (map_option fst \<circ> spec_binding) (take k ps))"
proof -
  from assms have "k' < length (take k ps)" "take k ps ! k' = ps ! k'" by simp_all
  then have "ps ! k' \<in> set (take k ps)" by (metis nth_mem)
  then show ?thesis by simp
qed

lemma LoadPorts_dup_at:
  assumes "k < length ps"
    and "\<forall>p \<in> set (take (Suc k) ps). port_entry_ok p"
    and "distinct (List.map_filter p_name (take (Suc k) ps))"
    and "distinct (map (map_option fst \<circ> spec_binding) (take k ps))"
    and "map_option fst (spec_binding (ps ! k)) = Some h"
    and "k' < k" "map_option fst (spec_binding (ps ! k')) = Some h"
  shows "LoadPorts ps ctr
         = Inl (Fatal (''containers['' @ ctr @ ''].ports[''
                       @ get_default (p_name (ps ! k)) (str_nat k)
                       @ ''].hostPort is not unique: '' @ str_int h))"
proof -
  have "Some h \<in> set (map (map_option fst \<circ> spec_binding) (take k ps))"
    using host_in_take [OF assms(6), of ps] assms(1,7) by simp
  then have dup: "h \<in> set [] \<or> Some h \<in> set (map (map_option fst \<circ> spec_binding) (take k ps))"
    by simp
  have e1: "set (List.map_filter p_name (take (Suc k) ps)) \<inter> set [] = {}" by simp
  have e2: "set (map (map_option fst \<circ> spec_binding) (take k ps)) \<inter> Some ` set [] = {}"
    by simp
  from LoadPorts_loop_dup [OF assms(1) assms(2) assms(3) e1 assms(4) e2 assms(5) dup,
      of ctr 0 "[]"]
  show ?thesis by (simp add: LoadPorts_def)
qed

lemma first_repeated_host:
  assumes "i < j" "j < length ps"
    and "map_option fst (spec_binding (ps ! i)) = map_option fst (spec_binding (ps ! j))"
  obtains k k' where "k \<le> j" "k' < k"
    "map_option fst (spec_binding (ps ! k')) = map_option fst (spec_binding (ps ! k))"
    "distinct (map (map_option fst \<circ> spec_binding) (take k ps))"
proof -
  define D where "D k = (k \<le> j \<and> (\<exists>k' < k. map_option fst (spec_binding (ps ! k'))
      = map_option fst (spec_binding (ps ! k))))" for k
  have "D j" unfolding D_def using assms(1,3) by blast
  define k where "k = (LEAST k. D k)"
  have Dk: "D k" unfolding k_def using \<open>D j\<close> by (rule LeastI)
  have least: "\<And>m. m < k \<Longrightarrow> \<not> D m"
    unfolding k_def by (rule not_less_Least)
  from Dk obtain k' where k: "k \<le> j" "k' < k"
      "map_option fst (spec_binding (ps ! k')) = map_option fst (spec_binding (ps ! k))"
    unfolding D_def by blast
  have len: "length (take k ps) = k" using k(1) assms(2) by simp
  have no: "\<And>x y. x < y \<Longrightarrow> y < k \<Longrightarrow>
      map_option fst (spec_binding (ps ! x)) \<noteq> map_option fst (spec_binding (ps ! y))"
  proof
    fix x y assume xy: "x < y" "y < k"
      and eq: "map_option fst (spec_binding (ps ! x)) = map_option fst (spec_binding (ps ! y))"
    from xy k(1) have "y \<le> j" by simp
    with xy(1) eq have "D y" unfolding D_def by blast
    with least [OF xy(2)] show False by blast
  qed
  have "distinct (map (map_option fst \<circ> spec_binding) (take k ps))"
    unfolding distinct_conv_nth
  proof (intro allI impI)
    fix x y
    assume x: "x < length (map (map_option fst \<circ> spec_binding) (take k ps))"
      and y: "y < length (map (map_option fst \<circ> spec_binding) (take k ps))"
      and ne: "x \<noteq> y"
    from x y len have xk: "x < k" and yk: "y < k" by simp_all
    have ex: "map (map_option fst \<circ> spec_binding) (take k ps) ! x
        = map_option fst (spec_binding (ps ! x))"
      using xk len by simp
    have ey: "map (map_option fst \<circ> spec_binding) (take k ps) ! y
        = map_option fst (spec_binding (ps ! y))"
      using yk len by simp
    from ne have "x < y \<or> y < x" by arith
    then show "map (map_option fst \<circ> spec_binding) (take k ps) ! x
        \<noteq> map (map_option fst \<circ> spec_binding) (take k ps) ! y"
      unfolding ex ey using no [of x y] no [of y x] xk yk by metis
  qed
  with k show ?thesis by (rule that)
qed

text \<open>
  C10. Take any ports list of one container in which two entries, at positions
  \<open>i < j\<close>, stand for bindings with the same host port and different protocol
  suffixes (one TCP, one UDP, in either order), the entries up to \<open>j\<close> being
  well-formed with distinct names. Then the ports sub-pass fails with the
  host-port uniqueness error, raised at the first entry whose host port number
  repeats that of an earlier entry, whatever the protocols; when the host ports
  before \<open>j\<close> are distinct that entry is \<open>j\<close> itself. The same two bindings
  put on two containers pass the group-wide check, which compares number and
  suffix.
\<close>

theorem host_port_check_ignores_protocol:
  assumes "i < j" "j < length ps"
    and "\<forall>p \<in> set (take (Suc j) ps). port_entry_ok p"
    and "distinct (List.map_filter p_name (take (Suc j) ps))"
    and "spec_binding (ps ! i) = Some (h, c1, s1)"
    and "spec_binding (ps ! j) = Some (h, c2, s2)"
    and "s1 \<noteq> s2"
  shows "(\<exists>k h'. k \<le> j
            \<and> map_option fst (spec_binding (ps ! k)) = Some h'
            \<and> (\<exists>k' < k. map_option fst (spec_binding (ps ! k')) = Some h')
            \<and> LoadPorts ps ctr
                = Inl (Fatal (''containers['' @ ctr @ ''].ports[''
                              @ get_default (p_name (ps ! k)) (str_nat k)
                              @ ''].hostPort is not unique: '' @ str_int h')))
       \<and> (distinct (map (map_option fst \<circ> spec_binding) (take j ps)) \<longrightarrow>
            LoadPorts ps ctr
            = Inl (Fatal (''containers['' @ ctr @ ''].ports[''
                          @ get_default (p_name (ps ! j)) (str_nat j)
                          @ ''].hostPort is not unique: '' @ str_int h)))
       \<and> CheckGroupWideConflicts [a\<lparr>ports := [(h, c1, s1)]\<rparr>, b\<lparr>ports := [(h, c2, s2)]\<rparr>]
           = Inr ()
       \<and> CheckGroupWideConflicts [b\<lparr>ports := [(h, c2, s2)]\<rparr>, a\<lparr>ports := [(h, c1, s1)]\<rparr>]
           = Inr ()"
proof (intro conjI impI)
  have same: "map_option fst (spec_binding (ps ! i)) = map_option fst (spec_binding (ps ! j))"
    using assms(5,6) by simp
  from first_repeated_host [OF assms(1,2) same] obtain k k' where k: "k \<le> j" "k' < k"
      "map_option fst (spec_binding (ps ! k')) = map_option fst (spec_binding (ps ! k))"
      "distinct (map (map_option fst \<circ> spec_binding) (take k ps))"
    by blast
  from k(1) assms(2) have kl: "k < length ps" by simp
  have sub: "set (take (Suc k) ps) \<subseteq> set (take (Suc j) ps)"
    using k(1) by (intro set_take_subset_set_take) simp
  with assms(3) have ok: "\<forall>p \<in> set (take (Suc k) ps). port_entry_ok p" by blast
  have "take (Suc k) ps = take (Suc k) (take (Suc j) ps)"
    using k(1) by (simp add: min_def)
  then have nm: "distinct (List.map_filter p_name (take (Suc k) ps))"
    using distinct_map_filter_take [OF assms(4), of "Suc k"] by simp
  have "ps ! k \<in> set (take (Suc k) ps)"
    using kl by (metis in_set_conv_nth length_take lessI min_less_iff_conj nth_take)
  with ok have "port_entry_ok (ps ! k)" by blast
  then obtain bk where "spec_binding (ps ! k) = Some bk"
    by (auto elim: port_entry_ok_binding)
  then have hk: "map_option fst (spec_binding (ps ! k)) = Some (fst bk)" by simp
  with k(3) have hk': "map_option fst (spec_binding (ps ! k')) = Some (fst bk)" by simp
  note fail = LoadPorts_dup_at [OF kl ok nm k(4) hk k(2) hk', of ctr]
  show "\<exists>k h'. k \<le> j
            \<and> map_option fst (spec_binding (ps ! k)) = Some h'
            \<and> (\<exists>k' < k. map_option fst (spec_binding (ps ! k')) = Some h')
            \<and> LoadPorts ps ctr
                = Inl (Fatal (''containers['' @ ctr @ ''].ports[''
                              @ get_default (p_name (ps ! k)) (str_nat k)
                              @ ''].hostPort is not unique: '' @ str_int h'))"
    using k(1,2) hk hk' fail by blast
next
  assume d: "distinct (map (map_option fst \<circ> spec_binding) (take j ps))"
  have hj: "map_option fst (spec_binding (ps ! j)) = Some h" using assms(6) by simp
  have hi: "map_option fst (spec_binding (ps ! i)) = Some h" using assms(5) by simp
  show "LoadPorts ps ctr
            = Inl (Fatal (''containers['' @ ctr @ ''].ports[''
                          @ get_default (p_name (ps ! j)) (str_nat j)
                          @ ''].hostPort is not unique: '' @ str_int h))"
    by (rule LoadPorts_dup_at [OF assms(2) assms(3) assms(4) d hj assms(1) hi])
next
  have s: "s1 \<in> {'''', ''/udp''}" "s2 \<in> {'''', ''/udp''}"
    using spec_binding_suffix [OF assms(5)] spec_binding_suffix [OF assms(6)] by simp_all
  show "CheckGroupWideConflicts [a\<lparr>ports := [(h, c1, s1)]\<rparr>, b\<lparr>ports := [(h, c2, s2)]\<rparr>]
           = Inr ()"
    using CheckGroupWideConflicts_Inr [of "[a\<lparr>ports := [(h, c1, s1)]\<rparr>, b\<lparr>ports := [(h, c2, s2)]\<rparr>]"]
      s assms(7) by simp
  show "CheckGroupWideConflicts [b\<lparr>ports := [(h, c2, s2)]\<rparr>, a\<lparr>ports := [(h, c1, s1)]\<rparr>]
           = Inr ()"
    using CheckGroupWideConflicts_Inr [of "[b\<lparr>ports := [(h, c2, s2)]\<rparr>, a\<lparr>ports := [(h, c1, s1)]\<rparr>]"]
      s assms(7) by simp
qed

theorem host_port_check_ignores_protocol_witness:
  "LoadPorts
     [\<lparr> p_name = Some ''web'', p_containerPort = Some 80, p_hostPort = Some 8080,
        p_protocol = Some ''TCP'' \<rparr>,
      \<lparr> p_name = None, p_containerPort = Some 53, p_hostPort = None,
        p_protocol = Some ''UDP'' \<rparr>,
      \<lparr> p_name = None, p_containerPort = Some 5353, p_hostPort = Some 53,
        p_protocol = None \<rparr>] ''dns''
   = Inl (Fatal ''containers[dns].ports[2].hostPort is not unique: 53'')
   \<and> LoadPorts
     [\<lparr> p_name = None, p_containerPort = Some 53, p_hostPort = Some 53,
        p_protocol = Some ''TCP'' \<rparr>,
      \<lparr> p_name = Some ''dns-udp'', p_containerPort = Some 53, p_hostPort = Some 53,
        p_protocol = Some ''UDP'' \<rparr>] ''dns''
   = Inl (Fatal ''containers[dns].ports[dns-udp].hostPort is not unique: 53'')
   \<and> CheckGroupWideConflicts
       [(Container_init ''a'' ''img'')\<lparr>ports := [(53, 53, ''/udp'')]\<rparr>,
        (Container_init ''b'' ''img'')\<lparr>ports := [(53, 5353, '''')]\<rparr>] = Inr ()
   \<and> CheckGroupWideConflicts
       [(Container_init ''a'' ''img'')\<lparr>ports := [(53, 53, '''')]\<rparr>,
        (Container_init ''b'' ''img'')\<lparr>ports := [(53, 53, ''/udp'')]\<rparr>] = Inr ()"
proof -
  let ?ps = "[\<lparr> p_name = Some ''web'', p_containerPort = Some 80, p_hostPort = Some 8080,
        p_protocol = Some ''TCP'' \<rparr>,
      \<lparr> p_name = None, p_containerPort = Some 53, p_hostPort = None,
        p_protocol = Some ''UDP'' \<rparr>,
      \<lparr> p_name = None, p_containerPort = Some 5353, p_hostPort = Some 53,
        p_protocol = None \<rparr>]"
  let ?qs = "[\<lparr> p_name = None, p_containerPort = Some 53, p_hostPort = Some 53,
        p_protocol = Some ''TCP'' \<rparr>,
      \<lparr> p_name = Some ''dns-udp'', p_containerPort = Some 53, p_hostPort = Some 53,
        p_protocol = Some ''UDP'' \<rparr>]"
  have p1: "Suc 0 < Suc (Suc 0)" by simp
  have p2: "Suc (Suc 0) < length ?ps" by simp
  have p3: "\<forall>p \<in> set (take (Suc (Suc (Suc 0))) ?ps). port_entry_ok p"
    by (simp add: port_eval rfc_eval)
  have p4: "distinct (List.map_filter p_name (take (Suc (Suc (Suc 0))) ?ps))"
    by (simp add: List.map_filter_simps)
  have p5: "spec_binding (?ps ! Suc 0) = Some (53, 53, ''/udp'')"
    by (simp add: port_eval)
  have p6: "spec_binding (?ps ! Suc (Suc 0)) = Some (53, 5353, '''')"
    by (simp add: port_eval)
  have p7: "''/udp'' \<noteq> ''''" by simp
  have p8: "distinct (map (map_option fst \<circ> spec_binding) (take (Suc (Suc 0)) ?ps))"
    by (simp add: port_eval)
  note one = host_port_check_ignores_protocol [OF p1 p2 p3 p4 p5 p6 p7, of "''dns''"
      "Container_init ''a'' ''img''" "Container_init ''b'' ''img''"]
  from one p8 have a: "LoadPorts ?ps ''dns''
      = Inl (Fatal (''containers['' @ ''dns'' @ ''].ports[''
                    @ get_default (p_name (?ps ! Suc (Suc 0))) (str_nat (Suc (Suc 0)))
                    @ ''].hostPort is not unique: '' @ str_int 53))"
    by blast
  have a': "LoadPorts ?ps ''dns''
      = Inl (Fatal ''containers[dns].ports[2].hostPort is not unique: 53'')"
    using a by (simp add: get_default_def str_eval)
  from one have g1: "CheckGroupWideConflicts
       [(Container_init ''a'' ''img'')\<lparr>ports := [(53, 53, ''/udp'')]\<rparr>,
        (Container_init ''b'' ''img'')\<lparr>ports := [(53, 5353, '''')]\<rparr>] = Inr ()"
    by blast
  have q1: "0 < Suc 0" by simp
  have q2: "Suc 0 < length ?qs" by simp
  have q3: "\<forall>p \<in> set (take (Suc (Suc 0)) ?qs). port_entry_ok p"
    by (simp add: port_eval rfc_eval)
  have q4: "distinct (List.map_filter p_name (take (Suc (Suc 0)) ?qs))"
    by (simp add: List.map_filter_simps)
  have q5: "spec_binding (?qs ! 0) = Some (53, 53, '''')"
    by (simp add: port_eval)
  have q6: "spec_binding (?qs ! Suc 0) = Some (53, 53, ''/udp'')"
    by (simp add: port_eval)
  have q7: "'''' \<noteq> ''/udp''" by simp
  have q8: "distinct (map (map_option fst \<circ> spec_binding) (take (Suc 0) ?qs))"
    by (simp add: port_eval)
  note two = host_port_check_ignores_protocol [OF q1 q2 q3 q4 q5 q6 q7, of "''dns''"
      "Container_init ''a'' ''img''" "Container_init ''b'' ''img''"]
  from two q8 have b: "LoadPorts ?qs ''dns''
      = Inl (Fatal (''containers['' @ ''dns'' @ ''].ports[''
                    @ get_default (p_name (?qs ! Suc 0)) (str_nat (Suc 0))
                    @ ''].hostPort is not unique: '' @ str_int 53))"
    by blast
  have b': "LoadPorts ?qs ''dns''
      = Inl (Fatal ''containers[dns].ports[dns-udp].hostPort is not unique: 53'')"
    using b by (simp add: get_default_def str_eval)
  from two have g2: "CheckGroupWideConflicts
       [(Container_init ''a'' ''img'')\<lparr>ports := [(53, 53, '''')]\<rparr>,
        (Container_init ''b'' ''img'')\<lparr>ports := [(53, 53, ''/udp'')]\<rparr>] = Inr ()"
    by blast
  from a' b' g1 g2 show ?thesis by blast
qed

end
